theory Spec2Isabelle
  imports Complex_Main "HOL-Library.List_Lexorder" "HOL-Library.Char_ord" "HOL-Library.Product_Lexorder"
begin

section \<open>JavaScript numbers that hold integers\<close>

text \<open>
  Every number of the settlement service is an IEEE-754 double. The amounts come from the
  column \<open>amount_total INT UNSIGNED\<close>, so the values are integers; a double holds an integer
  exactly when 53 significant bits are enough, and the result of \<open>+\<close>, \<open>-\<close> and \<open>*\<close> is
  the exact result rounded to 53 significant bits, ties to the even significand.
  Numbers are modelled by \<open>int\<close> with that rounding written out (magnitudes stay far below
  the overflow threshold \<open>2^1024\<close>).
\<close>

fun bit_length :: "nat \<Rightarrow> nat" where
  "bit_length n = (if n = 0 then 0 else Suc (bit_length (n div 2)))"

declare bit_length.simps [simp del]

definition round53 :: "int \<Rightarrow> int" where
  "round53 x =
     (let a = \<bar>x\<bar>; b = bit_length (nat a) in
      if b \<le> 53 then x
      else
        let s = b - 53;
            m = a div 2 ^ s;
            r = a mod 2 ^ s;
            m' = (if 2 ^ s < 2 * r \<or> (2 * r = 2 ^ s \<and> odd m) then m + 1 else m)
        in sgn x * (m' * 2 ^ s))"

definition js_add :: "int \<Rightarrow> int \<Rightarrow> int" where
  "js_add a b = round53 (a + b)"

definition js_sub :: "int \<Rightarrow> int \<Rightarrow> int" where
  "js_sub a b = round53 (a - b)"

text \<open>
  \<open>const PLATFORM_COMMISSION_RATE = 0.2\<close>: the literal denotes the double nearest to one
  fifth, which is \<open>3602879701896397 / 2^54\<close>.
\<close>

definition PLATFORM_COMMISSION_RATE_significand :: int where
  "PLATFORM_COMMISSION_RATE_significand = 3602879701896397"

text \<open>
  \<open>Math.floor(totalSales * PLATFORM_COMMISSION_RATE)\<close>: the exact product is
  \<open>totalSales * 3602879701896397 / 2^54\<close>; the multiplication rounds it to 53 significant
  bits (scaling by a power of two does not change the rounding), then \<open>Math.floor\<close> takes
  the integer part.
\<close>

definition floor_times_rate :: "int \<Rightarrow> int" where
  "floor_times_rate totalSales =
     round53 (totalSales * PLATFORM_COMMISSION_RATE_significand) div 2 ^ 54"

section \<open>Status mapping and transition validation (webhook service)\<close>

datatype pay_status = PENDING | SUCCESS | FAILED | CANCELED | REFUNDED

text \<open>
  A value read out of an object literal by a string key: either one of the strings the
  literal stores, or a member that the literal inherits from \<open>Object.prototype\<close> (a function
  or an object, never a string, always truthy), named here by its key.
\<close>

datatype js_value = JString string | JInherited string

text \<open>
  The keys every object literal inherits from \<open>Object.prototype\<close> (ECMAScript, with Annex B).
\<close>

definition objectPrototypeKeys :: "string list" where
  "objectPrototypeKeys =
     [''constructor'', ''__proto__'', ''hasOwnProperty'', ''isPrototypeOf'',
      ''propertyIsEnumerable'', ''toLocaleString'', ''toString'', ''valueOf'',
      ''__defineGetter__'', ''__defineSetter__'', ''__lookupGetter__'', ''__lookupSetter__'']"

definition statusMap :: "(string \<times> string) list" where
  "statusMap =
     [(''READY'', ''PENDING''),
      (''IN_PROGRESS'', ''PENDING''),
      (''WAITING_FOR_DEPOSIT'', ''PENDING''),
      (''DONE'', ''SUCCESS''),
      (''CANCELED'', ''CANCELED''),
      (''PARTIAL_CANCELED'', ''CANCELED''),
      (''ABORTED'', ''FAILED''),
      (''EXPIRED'', ''FAILED'')]"

text \<open>
  \<open>return statusMap[tossStatus] || 'PENDING'\<close>: an own key wins, then the prototype chain
  is searched, and only a key found nowhere yields \<open>undefined\<close> and so the default.
\<close>

definition mapTossStatusToOurStatus :: "string \<Rightarrow> js_value" where
  "mapTossStatusToOurStatus tossStatus =
     (case map_of statusMap tossStatus of
        Some v \<Rightarrow> JString v
      | None \<Rightarrow>
          if tossStatus \<in> set objectPrototypeKeys then JInherited tossStatus
          else JString ''PENDING'')"

text \<open>
  The current status is read from the column
  \<open>status ENUM('PENDING','SUCCESS','FAILED','CANCELED','REFUNDED')\<close>.
\<close>

fun validTransitions :: "pay_status \<Rightarrow> string list" where
  "validTransitions PENDING = [''SUCCESS'', ''FAILED'', ''CANCELED'']"
| "validTransitions SUCCESS = [''CANCELED'', ''REFUNDED'']"
| "validTransitions FAILED = []"
| "validTransitions CANCELED = []"
| "validTransitions REFUNDED = []"

text \<open>\<open>validTransitions[currentStatus]?.includes(newStatus) || false\<close>\<close>

fun isValidStatusTransition :: "pay_status \<Rightarrow> js_value \<Rightarrow> bool" where
  "isValidStatusTransition currentStatus (JString newStatus) =
     (newStatus \<in> set (validTransitions currentStatus))"
| "isValidStatusTransition currentStatus (JInherited k) = False"

section \<open>Ledger store\<close>

text \<open>
  The tables as the schema declares them; columns that no modelled statement reads or
  writes (\<open>user_id\<close>, \<open>currency\<close>, \<open>pg_provider\<close>, \<open>created_at\<close>, \<open>updated_at\<close>, the JSON
  copies \<open>raw_data\<close>) are left out. Times are seconds on one clock.
\<close>

record payment =
  pay_id :: nat
  store_id :: string
  reservation_id :: "string option"
  amount_total :: int
  pg_payment_key :: "string option"
  pg_order_id :: string
  pg_method :: string
  status :: pay_status
  paid_at :: "int option"
  canceled_at :: "int option"
  is_settled :: bool
  settlement_statement_id :: "nat option"

record reservation =
  res_id :: string
  res_status :: string
  res_payment_status :: string

text \<open>
  The argument of \<open>new Date(approvedAt)\<close>: the gateway sends a string, a number is
  accepted as well.
\<close>

datatype js_date_arg = DateNumber int | DateString string

text \<open>The body of a gateway callback: \<open>{ eventType, data: { paymentKey, orderId, status,
  approvedAt, totalAmount, method } }\<close>; \<open>None\<close> is a field that is absent.\<close>

record webhookData =
  eventType :: "string option"
  data_paymentKey :: "string option"
  data_orderId :: "string option"
  data_status :: "string option"
  data_approvedAt :: "js_date_arg option"
  data_totalAmount :: "int option"
  data_method :: "string option"

record payment_webhook =
  wh_payment_id :: nat
  wh_pg_order_id :: string
  wh_pg_payment_key :: "string option"
  wh_event_type :: string
  wh_status :: "string option"
  wh_webhook_data :: webhookData
  wh_created_at :: int

text \<open>\<open>commission_rate DECIMAL(5,4)\<close> is kept in units of \<open>1/10000\<close>.\<close>

record settlement_statement =
  stmt_id :: nat
  stmt_store_id :: string
  stmt_period_start :: int
  stmt_period_end :: int
  total_sales :: int
  commission_rate_e4 :: nat
  commission_amount :: int
  payout_amount :: int
  stmt_status :: string
  meta_paymentsCount :: nat

record settlement_item =
  item_statement_id :: nat
  item_payment_id :: nat
  amount :: int

text \<open>The run messages are Korean literals in the source; they are named here.\<close>

datatype log_message = MsgStarted | MsgNoTarget | MsgDryRunDone | MsgDone | MsgFailed

record settlement_log =
  log_id :: nat
  started_at :: int
  ended_at :: "int option"
  period_start :: int
  period_end :: int
  log_status :: string
  log_message :: log_message
  error_message :: "string option"
  total_payments :: nat
  total_statements :: nat
  success_payments :: nat
  skipped_payments :: nat
  total_payout :: int
  total_commission :: int

record settlement_error =
  err_settlement_log_id :: "nat option"
  err_type :: string
  err_payment_id :: "nat option"
  err_store_id :: "string option"
  err_statement_id :: "nat option"
  err_message :: string

record db =
  payments :: "payment list"
  reservations :: "reservation list"
  payment_webhooks :: "payment_webhook list"
  settlement_statements :: "settlement_statement list"
  settlement_items :: "settlement_item list"
  settlement_logs :: "settlement_log list"
  settlement_errors :: "settlement_error list"

text \<open>An \<open>AUTO_INCREMENT\<close> key: larger than every key in the table, hence never zero.\<close>

definition fresh_id :: "nat list \<Rightarrow> nat" where
  "fresh_id ids = Suc (fold max ids 0)"

section \<open>What the service cannot control\<close>

text \<open>
  Each \<open>connection.query\<close> may reject; \<open>query_error env site = Some m\<close> says that the query at
  that place rejects with an \<open>Error\<close> whose message is \<open>m\<close>. A statement insert may come back
  without \<open>insertId\<close>. The source provides for a payment that somebody else has settled
  between the locking read and the conditional update (\<open>affectedRows === 0\<close>):
  \<open>concurrently_settled env i = Some s\<close> says that payment \<open>i\<close> was settled into statement
  \<open>s\<close> meanwhile. The tables are InnoDB tables, and the rows that
  \<open>SELECT ... FOR UPDATE\<close> has read stay locked until the transaction ends, so on this
  store \<open>concurrently_settled env\<close> is \<open>None\<close> on every selected payment; a value
  \<open>Some s\<close> there describes a store without row locks. The clock gives \<open>new Date()\<close> at
  the start and at the end.
  \<open>beginTransaction\<close>, \<open>commit\<close> and \<open>rollback\<close> themselves are taken to succeed.
\<close>

datatype query_site =
    LogInsert | SelectPayments | LogNoopUpdate | LogDryRunUpdate
  | StatementInsert string | PaymentUpdate nat | ItemInsert nat
  | LogSuccessUpdate | LogFailedUpdate | ErrorInsert

record env =
  query_error :: "query_site \<Rightarrow> string option"
  insert_id_missing :: "string \<Rightarrow> bool"
  concurrently_settled :: "nat \<Rightarrow> nat option"
  clock_started :: int
  clock_ended :: int

text \<open>
  The exceptions of both services. \<open>error_text\<close> is \<open>err.message\<close>; the Korean words of the
  source's own messages are dropped, the interpolated identifiers kept.
\<close>

datatype error =
    PeriodMissing
  | PeriodNotAfter
  | StatementIdMissing string
  | DbError string
  | WebhookFieldMissing
  | OrderNotFound string

fun error_text :: "error \<Rightarrow> string" where
  "error_text PeriodMissing = ''periodStart, periodEnd''"
| "error_text PeriodNotAfter = ''periodEnd periodStart''"
| "error_text (StatementIdMissing storeId) = ''INSERT: storeId='' @ storeId"
| "error_text (DbError m) = m"
| "error_text WebhookFieldMissing = []"
| "error_text (OrderNotFound orderId) = '': '' @ orderId"

section \<open>Settlement service\<close>

subsection \<open>The locking read\<close>

text \<open>
  \<open>SELECT id, store_id, amount_total, paid_at FROM payments WHERE status = 'SUCCESS' AND
  is_settled = 0 AND paid_at >= ? AND paid_at < ? ORDER BY store_id, paid_at FOR UPDATE\<close>.
  A row of the result has the four selected columns. Strings are ordered bytewise (the
  collation of the column may order them otherwise; only the order of the groups depends
  on it).
\<close>

record pay_row =
  row_id :: nat
  row_store_id :: string
  row_amount_total :: int
  row_paid_at :: int

definition eligible :: "int \<Rightarrow> int \<Rightarrow> payment \<Rightarrow> bool" where
  "eligible periodStart periodEnd p =
     (status p = SUCCESS \<and> \<not> is_settled p \<and>
      (case paid_at p of None \<Rightarrow> False | Some t \<Rightarrow> periodStart \<le> t \<and> t < periodEnd))"

definition to_row :: "payment \<Rightarrow> pay_row" where
  "to_row p =
     \<lparr>row_id = pay_id p, row_store_id = store_id p, row_amount_total = amount_total p,
      row_paid_at = (case paid_at p of None \<Rightarrow> 0 | Some t \<Rightarrow> t)\<rparr>"

definition select_payments :: "int \<Rightarrow> int \<Rightarrow> db \<Rightarrow> pay_row list" where
  "select_payments periodStart periodEnd d =
     sort_key (\<lambda>r. (row_store_id r, row_paid_at r))
       (map to_row (filter (eligible periodStart periodEnd) (payments d)))"

subsection \<open>Grouping and aggregation\<close>

text \<open>
  \<open>if (!storeMap.has(p.store_id)) storeMap.set(p.store_id, []);
  storeMap.get(p.store_id).push(p)\<close>: a \<open>Map\<close> keeps its keys in the order of their first
  insertion.
\<close>

fun storeMap_push :: "pay_row \<Rightarrow> (string \<times> pay_row list) list \<Rightarrow> (string \<times> pay_row list) list" where
  "storeMap_push p [] = [(row_store_id p, [p])]"
| "storeMap_push p ((k, v) # m) =
     (if k = row_store_id p then (k, v @ [p]) # m else (k, v) # storeMap_push p m)"

definition storeMap :: "pay_row list \<Rightarrow> (string \<times> pay_row list) list" where
  "storeMap payments_list = foldl (\<lambda>m p. storeMap_push p m) [] payments_list"

text \<open>\<open>storePayments.reduce((sum, p) => sum + p.amount_total, 0)\<close>\<close>

definition reduce_amount_total :: "pay_row list \<Rightarrow> int" where
  "reduce_amount_total storePayments =
     foldl (\<lambda>sum p. js_add sum (row_amount_total p)) 0 storePayments"

record settlement =
  storeId :: string
  statementId :: "nat option"
  totalSales :: int
  commissionAmount :: int
  payoutAmount :: int
  paymentsCount :: nat

subsection \<open>simulateSettlement\<close>

fun simulate_stores :: "(string \<times> pay_row list) list \<Rightarrow> settlement list" where
  "simulate_stores [] = []"
| "simulate_stores ((sid, lst) # rest) =
     (let sales = reduce_amount_total lst in
      if sales \<le> 0 then simulate_stores rest
      else
        let commission = floor_times_rate sales;
            payout = js_sub sales commission
        in \<lparr>storeId = sid, statementId = None, totalSales = sales,
             commissionAmount = commission, payoutAmount = payout,
             paymentsCount = length lst\<rparr> # simulate_stores rest)"

text \<open>The result is \<open>{ totalStatements, settlements }\<close>.\<close>

definition simulateSettlement :: "pay_row list \<Rightarrow> nat \<times> settlement list" where
  "simulateSettlement payments_list =
     (let settlements = simulate_stores (storeMap payments_list)
      in (length settlements, settlements))"

subsection \<open>logSettlementError\<close>

text \<open>A failing insert into \<open>settlement_errors\<close> is caught and not thrown again.\<close>

definition logSettlementError :: "env \<Rightarrow> settlement_error \<Rightarrow> db \<Rightarrow> db" where
  "logSettlementError env e d =
     (case query_error env ErrorInsert of
        None \<Rightarrow> d\<lparr>settlement_errors := settlement_errors d @ [e]\<rparr>
      | Some m \<Rightarrow> d)"

subsection \<open>The mutating path of runSettlementPeriod\<close>

text \<open>The counters of the run and the tables as the open transaction sees them.\<close>

record run_state =
  conn :: db
  successPaymentCount :: nat
  skippedPaymentCount :: nat
  totalCommission :: int
  totalPayout :: int
  settlementsResult :: "settlement list"

text \<open>
  \<open>UPDATE payments SET is_settled = 1, settlement_statement_id = ? WHERE id = ? AND
  is_settled = 0\<close>, with the number of rows it changed.
\<close>

definition claim_matches :: "nat \<Rightarrow> payment \<Rightarrow> bool" where
  "claim_matches i q = (pay_id q = i \<and> \<not> is_settled q)"

definition claim_row :: "nat \<Rightarrow> nat \<Rightarrow> payment \<Rightarrow> payment" where
  "claim_row sid i q =
     (if claim_matches i q
      then q\<lparr>is_settled := True, settlement_statement_id := Some sid\<rparr> else q)"

definition update_claim :: "nat \<Rightarrow> nat \<Rightarrow> db \<Rightarrow> nat \<times> db" where
  "update_claim sid i d =
     (length (filter (claim_matches i) (payments d)),
      d\<lparr>payments := map (claim_row sid i) (payments d)\<rparr>)"

text \<open>
  The loop over the payments of one store. A thrown exception carries the tables as the
  transaction had them, for the handler of \<open>runSettlementPeriod\<close>.
\<close>

fun settle_payments ::
  "env \<Rightarrow> nat \<Rightarrow> string \<Rightarrow> nat \<Rightarrow> pay_row list \<Rightarrow> run_state \<Rightarrow> (error \<times> db) + run_state" where
  "settle_payments env logId sid stmtId [] st = Inr st"
| "settle_payments env logId sid stmtId (p # ps) st =
     (case query_error env (PaymentUpdate (row_id p)) of
        Some m \<Rightarrow> Inl (DbError m, conn st)
      | None \<Rightarrow>
          (case update_claim stmtId (row_id p) (conn st) of
             (affectedRows, d1) \<Rightarrow>
               if affectedRows = 0 then
                 settle_payments env logId sid stmtId ps
                   (st\<lparr>skippedPaymentCount := skippedPaymentCount st + 1,
                       conn := logSettlementError env
                         \<lparr>err_settlement_log_id = Some logId,
                          err_type = ''PAYMENT_ALREADY_SETTLED'',
                          err_payment_id = Some (row_id p), err_store_id = Some sid,
                          err_statement_id = Some stmtId,
                          err_message = ''payments UPDATE affectedRows = 0''\<rparr> d1\<rparr>)
               else
                 (case query_error env (ItemInsert (row_id p)) of
                    Some m \<Rightarrow>
                      Inl (DbError m,
                           logSettlementError env
                             \<lparr>err_settlement_log_id = Some logId,
                              err_type = ''ITEM_INSERT_FAIL'',
                              err_payment_id = Some (row_id p), err_store_id = Some sid,
                              err_statement_id = Some stmtId, err_message = m\<rparr> d1)
                  | None \<Rightarrow>
                      settle_payments env logId sid stmtId ps
                        (st\<lparr>successPaymentCount := successPaymentCount st + 1,
                            conn := d1\<lparr>settlement_items := settlement_items d1 @
                              [\<lparr>item_statement_id = stmtId, item_payment_id = row_id p,
                                amount = row_amount_total p\<rparr>]\<rparr>\<rparr>))))"

text \<open>
  \<open>INSERT INTO settlement_statements (...) VALUES (?, ?, ?, ?, ?, ?, ?, 'pending', ?, NOW(),
  NOW())\<close> and the \<open>insertId\<close> the driver reports (\<open>0\<close> when it reports none).
\<close>

definition insert_statement ::
  "env \<Rightarrow> string \<Rightarrow> int \<Rightarrow> int \<Rightarrow> int \<Rightarrow> int \<Rightarrow> int \<Rightarrow> nat \<Rightarrow> db \<Rightarrow> nat \<times> db" where
  "insert_statement env sid periodStart periodEnd sales commission payout n d =
     (let new_id = fresh_id (map stmt_id (settlement_statements d))
      in (if insert_id_missing env sid then 0 else new_id,
          d\<lparr>settlement_statements := settlement_statements d @
             [\<lparr>stmt_id = new_id, stmt_store_id = sid, stmt_period_start = periodStart,
               stmt_period_end = periodEnd, total_sales = sales, commission_rate_e4 = 2000,
               commission_amount = commission, payout_amount = payout,
               stmt_status = ''pending'', meta_paymentsCount = n\<rparr>]\<rparr>))"

text \<open>The loop over \<open>storeMap.entries()\<close>.\<close>

fun settle_stores ::
  "env \<Rightarrow> nat \<Rightarrow> int \<Rightarrow> int \<Rightarrow> (string \<times> pay_row list) list \<Rightarrow> run_state \<Rightarrow> (error \<times> db) + run_state" where
  "settle_stores env logId periodStart periodEnd [] st = Inr st"
| "settle_stores env logId periodStart periodEnd ((sid, storePayments) # rest) st =
     (let sales = reduce_amount_total storePayments in
      if sales \<le> 0 then
        settle_stores env logId periodStart periodEnd rest
          (st\<lparr>skippedPaymentCount := skippedPaymentCount st + length storePayments\<rparr>)
      else
        let commission = floor_times_rate sales;
            payout = js_sub sales commission
        in
        (case query_error env (StatementInsert sid) of
           Some m \<Rightarrow>
             Inl (DbError m,
                  logSettlementError env
                    \<lparr>err_settlement_log_id = Some logId, err_type = ''STATEMENT_INSERT_FAIL'',
                     err_payment_id = None, err_store_id = Some sid,
                     err_statement_id = None, err_message = m\<rparr> (conn st))
         | None \<Rightarrow>
             (case insert_statement env sid periodStart periodEnd sales commission payout
                     (length storePayments) (conn st) of
                (stmtId, d1) \<Rightarrow>
                  if stmtId = 0 then
                    Inl (StatementIdMissing sid,
                         logSettlementError env
                           \<lparr>err_settlement_log_id = Some logId,
                            err_type = ''STATEMENT_INSERT_NO_ID'',
                            err_payment_id = None, err_store_id = Some sid,
                            err_statement_id = None, err_message = ''statementId''\<rparr> d1)
                  else
                    (case settle_payments env logId sid stmtId storePayments
                            (st\<lparr>conn := d1,
                                totalCommission := js_add (totalCommission st) commission,
                                totalPayout := js_add (totalPayout st) payout\<rparr>) of
                       Inl e \<Rightarrow> Inl e
                     | Inr st2 \<Rightarrow>
                         settle_stores env logId periodStart periodEnd rest
                           (st2\<lparr>settlementsResult := settlementsResult st2 @
                              [\<lparr>storeId = sid, statementId = Some stmtId, totalSales = sales,
                                commissionAmount = commission, payoutAmount = payout,
                                paymentsCount = length storePayments\<rparr>]\<rparr>)))))"

subsection \<open>runSettlementPeriod\<close>

text \<open>
  The three shapes of the returned object: \<open>{status: 'noop', totalPayments: 0,
  totalStatements: 0, settlements: []}\<close>; the dry-run object with \<open>totalPayments\<close>,
  \<open>totalStatements\<close>, \<open>settlements\<close>; and the object of a settled run with \<open>totalPayments\<close>,
  \<open>totalStatements\<close>, \<open>successPaymentCount\<close>, \<open>skippedPaymentCount\<close>, \<open>totalPayout\<close>,
  \<open>totalCommission\<close>, \<open>settlements\<close>.
\<close>

datatype report =
    ReportNoop
  | ReportDryRun nat nat "settlement list"
  | ReportSuccess nat nat nat nat int int "settlement list"

fun report_status :: "report \<Rightarrow> string" where
  "report_status ReportNoop = ''noop''"
| "report_status (ReportDryRun n k ss) = ''success''"
| "report_status (ReportSuccess n k a b c d ss) = ''success''"

definition insert_log :: "env \<Rightarrow> nat \<Rightarrow> int \<Rightarrow> int \<Rightarrow> db \<Rightarrow> db" where
  "insert_log env logId periodStart periodEnd d =
     d\<lparr>settlement_logs := settlement_logs d @
        [\<lparr>log_id = logId, started_at = clock_started env, ended_at = None,
          period_start = periodStart, period_end = periodEnd,
          log_status = ''noop'', log_message = MsgStarted, error_message = None,
          total_payments = 0, total_statements = 0, success_payments = 0,
          skipped_payments = 0, total_payout = 0, total_commission = 0\<rparr>]\<rparr>"

text \<open>\<open>UPDATE settlement_logs SET ... WHERE id = ?\<close>\<close>

definition update_log :: "nat \<Rightarrow> (settlement_log \<Rightarrow> settlement_log) \<Rightarrow> db \<Rightarrow> db" where
  "update_log logId f d =
     d\<lparr>settlement_logs := map (\<lambda>l. if log_id l = logId then f l else l) (settlement_logs d)\<rparr>"

text \<open>
  A transaction is the pair of the committed tables and the tables as the connection sees
  them: \<open>commit\<close> keeps the latter, \<open>rollback\<close> the former. What another transaction
  commits meanwhile reaches both.
\<close>

definition rollback :: "db \<Rightarrow> db \<Rightarrow> db" where
  "rollback committed working = committed"

definition concurrent_row :: "env \<Rightarrow> payment \<Rightarrow> payment" where
  "concurrent_row env q =
     (case concurrently_settled env (pay_id q) of
        None \<Rightarrow> q
      | Some s \<Rightarrow>
          if is_settled q then q
          else q\<lparr>is_settled := True, settlement_statement_id := Some s\<rparr>)"

definition concurrent_settlement :: "env \<Rightarrow> db \<Rightarrow> db" where
  "concurrent_settlement env d = d\<lparr>payments := map (concurrent_row env) (payments d)\<rparr>"

text \<open>
  The \<open>catch\<close> block once \<open>logId\<close> is set: the log row is updated to \<open>'failed'\<close> with
  \<open>err.message.slice(0, 1000)\<close> (a failure of this update is swallowed), then
  \<open>connection.rollback()\<close>, then the error is thrown again.
\<close>

definition mark_failed :: "env \<Rightarrow> nat \<Rightarrow> error \<Rightarrow> db \<Rightarrow> db" where
  "mark_failed env logId err d =
     (case query_error env LogFailedUpdate of
        Some m \<Rightarrow> d
      | None \<Rightarrow>
          update_log logId
            (\<lambda>l. l\<lparr>ended_at := Some (clock_ended env), log_status := ''failed'',
                    log_message := MsgFailed,
                    error_message := Some (take 1000 (error_text err))\<rparr>) d)"

definition run_failed :: "env \<Rightarrow> nat \<Rightarrow> error \<Rightarrow> db \<Rightarrow> db \<Rightarrow> (error + report) \<times> db" where
  "run_failed env logId err working committed =
     (Inl err, rollback committed (mark_failed env logId err working))"

text \<open>The counters as the source initialises them, on the tables \<open>d\<close>.\<close>

definition initial_state :: "db \<Rightarrow> run_state" where
  "initial_state d =
     \<lparr>conn = d, successPaymentCount = 0, skippedPaymentCount = 0,
      totalCommission = 0, totalPayout = 0, settlementsResult = []\<rparr>"

text \<open>Steps 3 and 4 of the source and the final update of the log.\<close>

definition run_mutating ::
  "env \<Rightarrow> nat \<Rightarrow> int \<Rightarrow> int \<Rightarrow> pay_row list \<Rightarrow> db \<Rightarrow> db \<Rightarrow> (error + report) \<times> db" where
  "run_mutating env logId periodStart periodEnd payments_list working committed =
     (let committed' = concurrent_settlement env committed;
          working' = concurrent_settlement env working
      in
      case settle_stores env logId periodStart periodEnd (storeMap payments_list)
             (initial_state working') of
        Inl (err, d) \<Rightarrow> run_failed env logId err d committed'
      | Inr st \<Rightarrow>
          (case query_error env LogSuccessUpdate of
             Some m \<Rightarrow> run_failed env logId (DbError m) (conn st) committed'
           | None \<Rightarrow>
               (Inr (ReportSuccess (length payments_list) (length (settlementsResult st))
                       (successPaymentCount st) (skippedPaymentCount st)
                       (totalPayout st) (totalCommission st) (settlementsResult st)),
                update_log logId
                  (\<lambda>l. l\<lparr>ended_at := Some (clock_ended env), log_status := ''success'',
                          log_message := MsgDone,
                          total_payments := length payments_list,
                          total_statements := length (settlementsResult st),
                          success_payments := successPaymentCount st,
                          skipped_payments := skippedPaymentCount st,
                          total_payout := totalPayout st,
                          total_commission := totalCommission st\<rparr>) (conn st))))"

text \<open>
  The arguments are \<open>Date\<close> objects or missing (\<open>None\<close>); the \<open>instanceof Date\<close> check has no
  counterpart, the type admits nothing else.
\<close>

definition runSettlementPeriod ::
  "env \<Rightarrow> int option \<Rightarrow> int option \<Rightarrow> bool \<Rightarrow> db \<Rightarrow> (error + report) \<times> db" where
  "runSettlementPeriod env periodStart periodEnd dryRun d0 =
     (case (periodStart, periodEnd) of
        (Some ps, Some pe) \<Rightarrow>
          if pe \<le> ps then (Inl PeriodNotAfter, d0)
          else
            (case query_error env LogInsert of
               Some m \<Rightarrow> (Inl (DbError m), rollback d0 d0)
             | None \<Rightarrow>
                 let logId = fresh_id (map log_id (settlement_logs d0));
                     d1 = insert_log env logId ps pe d0
                 in
                 (case query_error env SelectPayments of
                    Some m \<Rightarrow> run_failed env logId (DbError m) d1 d0
                  | None \<Rightarrow>
                      let payments_list = select_payments ps pe d1 in
                      if length payments_list = 0 then
                        (case query_error env LogNoopUpdate of
                           Some m \<Rightarrow> run_failed env logId (DbError m) d1 d0
                         | None \<Rightarrow>
                             (Inr ReportNoop,
                              update_log logId
                                (\<lambda>l. l\<lparr>ended_at := Some (clock_ended env),
                                        log_status := ''noop'', log_message := MsgNoTarget,
                                        total_payments := 0\<rparr>) d1))
                      else if dryRun then
                        (case simulateSettlement payments_list of
                           (totalStatements, settlements) \<Rightarrow>
                             (case query_error env LogDryRunUpdate of
                                Some m \<Rightarrow> run_failed env logId (DbError m) d1 d0
                              | None \<Rightarrow>
                                  (Inr (ReportDryRun (length payments_list) totalStatements
                                          settlements),
                                   update_log logId
                                     (\<lambda>l. l\<lparr>ended_at := Some (clock_ended env),
                                             log_status := ''success'',
                                             log_message := MsgDryRunDone,
                                             total_payments := length payments_list,
                                             total_statements := totalStatements\<rparr>) d1)))
                      else run_mutating env logId ps pe payments_list d1 d0))
      | _ \<Rightarrow> (Inl PeriodMissing, d0))"

section \<open>Webhook service\<close>

subsection \<open>What the webhook service cannot control\<close>

text \<open>
  The five statements of the service, by the place where they are issued.
\<close>

datatype webhook_site =
  PaymentLookup | ReplayLookup | HistoryInsert | PaymentWrite | ReservationWrite

text \<open>
  \<open>statement_error env site = Some m\<close>: the statement at that place is rejected with the
  message \<open>m\<close> for a reason that the tables do not show (a lock wait timeout, a lost
  connection, a duplicate of the random webhook identifier, a date outside the range of
  \<open>DATETIME\<close>).

  \<open>collation_key env\<close>: the text columns have the collation \<open>utf8mb4_unicode_ci\<close>, which
  compares two strings by their weights, not by their characters (\<open>done\<close> equals \<open>DONE\<close>,
  trailing spaces do not count). The key of a string stands for its weights: two strings
  are equal for the store when their keys are equal. Nothing is assumed about the key.

  \<open>server_time env site\<close> is \<open>NOW()\<close> of the statement at that place, \<open>Date_now env\<close> is
  \<open>new Date()\<close> of the service, both in seconds. \<open>new_Date env a\<close> is the time that the
  column holds when the driver is given \<open>new Date(a)\<close>: \<open>None\<close> for an invalid date, which
  the driver writes as \<open>NULL\<close>.
\<close>

record webhook_env =
  statement_error :: "webhook_site \<Rightarrow> string option"
  collation_key :: "string \<Rightarrow> string"
  server_time :: "webhook_site \<Rightarrow> int"
  Date_now :: int
  new_Date :: "js_date_arg \<Rightarrow> int option"

text \<open>The comparison \<open>column = ?\<close> of two strings; \<open>NULL\<close> is equal to nothing.\<close>

definition sql_equal :: "webhook_env \<Rightarrow> string \<Rightarrow> string \<Rightarrow> bool" where
  "sql_equal env a b = (collation_key env a = collation_key env b)"

fun sql_equal_null :: "webhook_env \<Rightarrow> string option \<Rightarrow> string option \<Rightarrow> bool" where
  "sql_equal_null env (Some a) (Some b) = sql_equal env a b"
| "sql_equal_null env a b = False"

text \<open>
  The server runs in its default, strict SQL mode. A string is the list of its
  characters, and a column counts characters. A \<open>VARCHAR(n)\<close> column then rejects a
  value with a character other than a space beyond position \<open>n\<close> (spaces beyond it are
  dropped, which no comparison of the collation sees: the row is modelled with the value
  as it was sent). An \<open>ENUM\<close> column rejects a word that is not one of its members, an
  \<open>INT UNSIGNED\<close> column a number outside \<open>0 .. 4294967295\<close>.
\<close>

definition varchar_accepts :: "nat \<Rightarrow> string \<Rightarrow> bool" where
  "varchar_accepts n s = list_all (\<lambda>c. c = CHR '' '') (drop n s)"

fun varchar_null_accepts :: "nat \<Rightarrow> string option \<Rightarrow> bool" where
  "varchar_null_accepts n None = True"
| "varchar_null_accepts n (Some s) = varchar_accepts n s"

definition int_unsigned_accepts :: "int \<Rightarrow> bool" where
  "int_unsigned_accepts n = (0 \<le> n \<and> n \<le> 4294967295)"

text \<open>\<open>reservations.status\<close> and \<open>reservations.payment_status\<close>\<close>

definition reservation_status_members :: "string list" where
  "reservation_status_members =
     [''pending'', ''pending_approval'', ''confirmed'', ''rejected'', ''in_progress'',
      ''completed'', ''cancelled'']"

definition reservation_payment_status_members :: "string list" where
  "reservation_payment_status_members = [''pending'', ''paid'', ''refunded'']"

subsection \<open>The functions of the service\<close>

text \<open>JavaScript truthiness of an optional string and of an optional date argument.\<close>

fun truthy_string :: "string option \<Rightarrow> bool" where
  "truthy_string None = False"
| "truthy_string (Some s) = (s \<noteq> [])"

fun truthy_date_arg :: "js_date_arg option \<Rightarrow> bool" where
  "truthy_date_arg None = False"
| "truthy_date_arg (Some (DateNumber n)) = (n \<noteq> 0)"
| "truthy_date_arg (Some (DateString s)) = (s \<noteq> [])"

text \<open>\<open>method || payment.pg_method\<close> and \<open>totalAmount || payment.amount_total\<close>\<close>

fun or_string :: "string option \<Rightarrow> string \<Rightarrow> string" where
  "or_string None dflt = dflt"
| "or_string (Some s) dflt = (if s = [] then dflt else s)"

fun or_number :: "int option \<Rightarrow> int \<Rightarrow> int" where
  "or_number None dflt = dflt"
| "or_number (Some n) dflt = (if n = 0 then dflt else n)"

text \<open>\<open>approvedAt ? new Date(approvedAt) : new Date()\<close>, as the column \<open>paid_at\<close> holds it.\<close>

definition approved_time :: "webhook_env \<Rightarrow> js_date_arg option \<Rightarrow> int option" where
  "approved_time env approvedAt =
     (case approvedAt of
        None \<Rightarrow> Some (Date_now env)
      | Some a \<Rightarrow> if truthy_date_arg (Some a) then new_Date env a else Some (Date_now env))"

text \<open>An absent value used as a property key is the key \<open>undefined\<close>.\<close>

fun property_key :: "string option \<Rightarrow> string" where
  "property_key None = ''undefined''"
| "property_key (Some s) = s"

text \<open>
  \<open>SELECT * FROM payment_webhooks WHERE pg_order_id = ? AND event_type = ? AND status = ?
  AND created_at >= DATE_SUB(NOW(), INTERVAL 1 HOUR)\<close>, then \<open>existingWebhooks.length > 0\<close>.
  The driver sends an absent status as \<open>NULL\<close>.
\<close>

definition checkWebhookIdempotency ::
  "webhook_env \<Rightarrow> db \<Rightarrow> string \<Rightarrow> string \<Rightarrow> string option \<Rightarrow> bool" where
  "checkWebhookIdempotency env d order_id event_type st =
     (0 < length (filter
        (\<lambda>w. sql_equal env (wh_pg_order_id w) order_id \<and>
             sql_equal env (wh_event_type w) event_type \<and>
             sql_equal_null env (wh_status w) st \<and>
             server_time env ReplayLookup - 3600 \<le> wh_created_at w)
        (payment_webhooks d)))"

text \<open>
  \<open>INSERT INTO payment_webhooks (id, payment_id, pg_order_id, pg_payment_key, event_type,
  status, webhook_data, created_at) VALUES (?, ?, ?, ?, ?, ?, ?, NOW())\<close>, into the columns
  \<open>pg_order_id VARCHAR(100)\<close>, \<open>pg_payment_key VARCHAR(100) NULL\<close>,
  \<open>event_type VARCHAR(50)\<close> and \<open>status VARCHAR(30) NULL\<close>; \<open>paymentKey || null\<close> stores an
  empty key as \<open>NULL\<close>.
\<close>

definition stored_payment_key :: "webhookData \<Rightarrow> string option" where
  "stored_payment_key rawData =
     (if truthy_string (data_paymentKey rawData) then data_paymentKey rawData else None)"

definition history_columns_accept :: "string \<Rightarrow> string \<Rightarrow> webhookData \<Rightarrow> bool" where
  "history_columns_accept order_id event_type rawData =
     (varchar_accepts 100 order_id \<and>
      varchar_null_accepts 100 (stored_payment_key rawData) \<and>
      varchar_accepts 50 event_type \<and>
      varchar_null_accepts 30 (data_status rawData))"

definition history_row ::
  "webhook_env \<Rightarrow> nat \<Rightarrow> string \<Rightarrow> string \<Rightarrow> webhookData \<Rightarrow> payment_webhook" where
  "history_row env paymentId order_id event_type rawData =
     \<lparr>wh_payment_id = paymentId, wh_pg_order_id = order_id,
      wh_pg_payment_key = stored_payment_key rawData,
      wh_event_type = event_type, wh_status = data_status rawData,
      wh_webhook_data = rawData, wh_created_at = server_time env HistoryInsert\<rparr>"

definition saveWebhookHistory ::
  "webhook_env \<Rightarrow> nat \<Rightarrow> string \<Rightarrow> string \<Rightarrow> webhookData \<Rightarrow> db \<Rightarrow> error + db" where
  "saveWebhookHistory env paymentId order_id event_type rawData d =
     (case statement_error env HistoryInsert of
        Some m \<Rightarrow> Inl (DbError m)
      | None \<Rightarrow>
          if \<not> history_columns_accept order_id event_type rawData
          then Inl (DbError ''Data too long for column'')
          else Inr (d\<lparr>payment_webhooks := payment_webhooks d @
                        [history_row env paymentId order_id event_type rawData]\<rparr>))"

text \<open>\<open>UPDATE payments SET ... WHERE id = ?\<close>\<close>

definition update_payment :: "nat \<Rightarrow> (payment \<Rightarrow> payment) \<Rightarrow> db \<Rightarrow> db" where
  "update_payment i f d =
     d\<lparr>payments := map (\<lambda>q. if pay_id q = i then f q else q) (payments d)\<rparr>"

text \<open>
  \<open>if (payment.reservation_id)\<close> guards \<open>UPDATE reservations SET ... WHERE id = ?\<close>. The
  statement sets \<open>payment_status\<close> and, when \<open>new_status\<close> is given, \<open>status\<close>; a word that is
  not a member of the column is rejected when a row is to be changed.
\<close>

definition update_reservation ::
  "webhook_env \<Rightarrow> string option \<Rightarrow> string option \<Rightarrow> string \<Rightarrow> db \<Rightarrow> error + db" where
  "update_reservation env rid new_status new_payment_status d =
     (if \<not> truthy_string rid then Inr d
      else
        (case statement_error env ReservationWrite of
           Some m \<Rightarrow> Inl (DbError m)
         | None \<Rightarrow>
             if filter (\<lambda>x. sql_equal_null env (Some (res_id x)) rid) (reservations d) = []
             then Inr d
             else if (case new_status of None \<Rightarrow> False
                      | Some s \<Rightarrow> s \<notin> set reservation_status_members)
             then Inl (DbError ''Data truncated for column status'')
             else if new_payment_status \<notin> set reservation_payment_status_members
             then Inl (DbError ''Data truncated for column payment_status'')
             else
               Inr (d\<lparr>reservations :=
                      map (\<lambda>x. if sql_equal_null env (Some (res_id x)) rid
                               then x\<lparr>res_status :=
                                        (case new_status of None \<Rightarrow> res_status x | Some s \<Rightarrow> s),
                                      res_payment_status := new_payment_status\<rparr>
                               else x)
                        (reservations d)\<rparr>)))"

text \<open>
  The update of a successful payment writes \<open>pg_payment_key VARCHAR(100) NULL\<close> (unique:
  no other payment may have an equal key), \<open>pg_method VARCHAR(30)\<close> and
  \<open>amount_total INT UNSIGNED\<close>.
\<close>

definition payment_key_taken :: "webhook_env \<Rightarrow> nat \<Rightarrow> string option \<Rightarrow> db \<Rightarrow> bool" where
  "payment_key_taken env i k d =
     (filter (\<lambda>q. pay_id q \<noteq> i \<and> sql_equal_null env (pg_payment_key q) k) (payments d) \<noteq> [])"

definition handlePaymentStatusChanged ::
  "webhook_env \<Rightarrow> payment \<Rightarrow> webhookData \<Rightarrow> db \<Rightarrow> error + db" where
  "handlePaymentStatusChanged env payment data d =
     (let ourStatus = mapTossStatusToOurStatus (property_key (data_status data)) in
      if ourStatus = JString ''SUCCESS'' then
        (case statement_error env PaymentWrite of
           Some m \<Rightarrow> Inl (DbError m)
         | None \<Rightarrow>
             let method = or_string (data_method data) (pg_method payment);
                 amount = or_number (data_totalAmount data) (amount_total payment)
             in
             if \<not> varchar_null_accepts 100 (data_paymentKey data) \<or> \<not> varchar_accepts 30 method
             then Inl (DbError ''Data too long for column'')
             else if \<not> int_unsigned_accepts amount
             then Inl (DbError ''Out of range value for column amount_total'')
             else if payment_key_taken env (pay_id payment) (data_paymentKey data) d
             then Inl (DbError ''Duplicate entry for key idx_payments_pg_payment_key'')
             else
               update_reservation env (reservation_id payment) (Some ''confirmed'') ''paid''
                 (update_payment (pay_id payment)
                    (\<lambda>q. q\<lparr>status := SUCCESS,
                            pg_payment_key := data_paymentKey data,
                            pg_method := method,
                            amount_total := amount,
                            paid_at := approved_time env (data_approvedAt data)\<rparr>)
                    d))
      else if ourStatus = JString ''FAILED'' then
        (case statement_error env PaymentWrite of
           Some m \<Rightarrow> Inl (DbError m)
         | None \<Rightarrow>
             update_reservation env (reservation_id payment) None ''failed''
               (update_payment (pay_id payment) (\<lambda>q. q\<lparr>status := FAILED\<rparr>) d))
      else Inr d)"

definition handlePaymentCanceled :: "webhook_env \<Rightarrow> payment \<Rightarrow> db \<Rightarrow> error + db" where
  "handlePaymentCanceled env payment d =
     (case statement_error env PaymentWrite of
        Some m \<Rightarrow> Inl (DbError m)
      | None \<Rightarrow>
          update_reservation env (reservation_id payment) (Some ''canceled'') ''refunded''
            (update_payment (pay_id payment)
               (\<lambda>q. q\<lparr>status := CANCELED,
                       canceled_at := Some (server_time env PaymentWrite)\<rparr>) d))"

record outcome =
  success :: bool
  message :: string

text \<open>
  \<open>SELECT * FROM payments WHERE pg_order_id = ? FOR UPDATE\<close> and \<open>payments[0]\<close>; the switch
  over \<open>eventType\<close> compares in JavaScript, character by character. The check of the two
  fields precedes the transaction; every later exception reaches the \<open>catch\<close> block, which
  rolls back and throws it again.
\<close>

definition dispatch_event ::
  "webhook_env \<Rightarrow> string \<Rightarrow> payment \<Rightarrow> webhookData \<Rightarrow> db \<Rightarrow> error + db" where
  "dispatch_event env event_type payment webhook d =
     (if event_type = ''PAYMENT_STATUS_CHANGED''
      then handlePaymentStatusChanged env payment webhook d
      else if event_type = ''PAYMENT_CANCELED''
      then handlePaymentCanceled env payment d
      else Inr d)"

definition processWebhook :: "webhook_env \<Rightarrow> webhookData \<Rightarrow> db \<Rightarrow> (error + outcome) \<times> db" where
  "processWebhook env webhook d =
     (case (eventType webhook, data_orderId webhook) of
        (Some event_type, Some order_id) \<Rightarrow>
          if event_type = [] \<or> order_id = [] then (Inl WebhookFieldMissing, d)
          else
            (case statement_error env PaymentLookup of
               Some m \<Rightarrow> (Inl (DbError m), rollback d d)
             | None \<Rightarrow>
                 (case filter (\<lambda>p. sql_equal env (pg_order_id p) order_id) (payments d) of
                    [] \<Rightarrow> (Inl (OrderNotFound order_id), rollback d d)
                  | payment # others \<Rightarrow>
                      (case statement_error env ReplayLookup of
                         Some m \<Rightarrow> (Inl (DbError m), rollback d d)
                       | None \<Rightarrow>
                           if checkWebhookIdempotency env d order_id event_type
                                (data_status webhook)
                           then (Inr \<lparr>success = True,
                                      message = ''Already processed (idempotent)''\<rparr>, d)
                           else
                             (case saveWebhookHistory env (pay_id payment) order_id event_type
                                     webhook d of
                                Inl e \<Rightarrow> (Inl e, rollback d d)
                              | Inr d1 \<Rightarrow>
                                  if \<not> isValidStatusTransition (status payment)
                                       (mapTossStatusToOurStatus
                                          (property_key (data_status webhook)))
                                  then (Inr \<lparr>success = False,
                                             message = ''Invalid status transition''\<rparr>, d1)
                                  else
                                    (case dispatch_event env event_type payment webhook d1 of
                                       Inl e \<Rightarrow> (Inl e, rollback d d1)
                                     | Inr d2 \<Rightarrow>
                                         (Inr \<lparr>success = True,
                                               message = ''Webhook processed successfully''\<rparr>,
                                          d2))))))
      | _ \<Rightarrow> (Inl WebhookFieldMissing, d))"


section \<open>Example ledgers\<close>

text \<open>A store \<open>M\<close> with two successful, unsettled payments of 15000 and 25000.\<close>

definition example_payment :: "nat \<Rightarrow> string \<Rightarrow> int \<Rightarrow> int \<Rightarrow> pay_status \<Rightarrow> payment" where
  "example_payment i sid a t st =
     \<lparr>pay_id = i, store_id = sid, reservation_id = None, amount_total = a,
      pg_payment_key = None, pg_order_id = ''order-'' @ sid, pg_method = ''CARD'',
      status = st, paid_at = Some t, canceled_at = None, is_settled = False,
      settlement_statement_id = None\<rparr>"

definition example_ledger :: "payment list \<Rightarrow> db" where
  "example_ledger ps =
     \<lparr>payments = ps, reservations = [], payment_webhooks = [],
      settlement_statements = [], settlement_items = [], settlement_logs = [],
      settlement_errors = []\<rparr>"

definition example_db :: db where
  "example_db =
     example_ledger [example_payment 1 ''M'' 15000 10 SUCCESS,
                     example_payment 2 ''M'' 25000 20 SUCCESS]"


text \<open>Nothing fails and nobody interferes.\<close>

definition quiet_env :: env where
  "quiet_env =
     \<lparr>query_error = (\<lambda>s. None), insert_id_missing = (\<lambda>s. False),
      concurrently_settled = (\<lambda>i. None), clock_started = 1000, clock_ended = 1001\<rparr>"

text \<open>The insert of the statement of store \<open>M\<close> is rejected.\<close>

definition failing_insert_env :: env where
  "failing_insert_env =
     quiet_env\<lparr>query_error :=
       (\<lambda>s. if s = StatementInsert ''M'' then Some ''Lock wait timeout exceeded'' else None)\<rparr>"

text \<open>A store \<open>Z\<close> whose only payment, successful and unsettled, has the amount 0.\<close>

definition zero_amount_db :: db where
  "zero_amount_db = example_ledger [example_payment 7 ''Z'' 0 10 SUCCESS]"

text \<open>Store \<open>M\<close> as before and the store \<open>Z\<close> with its payment of amount 0.\<close>

definition two_store_db :: db where
  "two_store_db =
     example_ledger [example_payment 1 ''M'' 15000 10 SUCCESS,
                     example_payment 2 ''M'' 25000 20 SUCCESS,
                     example_payment 7 ''Z'' 0 10 SUCCESS]"

text \<open>
  A store \<open>M\<close> with 1750000 successful payments of 4000000000 each (identifiers
  0 to 1749999) and one more of 4: every amount fits \<open>INT UNSIGNED\<close>, the total is
  7000000000000004.
\<close>

definition many_payments :: "nat \<Rightarrow> payment list" where
  "many_payments n = map (\<lambda>i. example_payment i ''M'' 4000000000 10 SUCCESS) [0..<n]"

definition big_db :: db where
  "big_db =
     example_ledger (many_payments 1750000 @ [example_payment 1750000 ''M'' 4 10 SUCCESS])"

text \<open>
  A store on which no statement of the webhook service fails and whose clock shows \<open>t\<close>.
  Its key of a string folds the letters \<open>a\<close> to \<open>z\<close> to capitals and drops trailing
  spaces, as the collation does on words of ASCII letters, digits and punctuation; a
  number given to \<open>new Date\<close> counts milliseconds (no example has a string there).
\<close>

definition ascii_capital :: "char \<Rightarrow> char" where
  "ascii_capital c =
     (case map_of (zip ''abcdefghijklmnopqrstuvwxyz'' ''ABCDEFGHIJKLMNOPQRSTUVWXYZ'') c of
        Some u \<Rightarrow> u
      | None \<Rightarrow> c)"

definition ascii_ci_key :: "string \<Rightarrow> string" where
  "ascii_ci_key s = map ascii_capital (rev (dropWhile (\<lambda>c. c = CHR '' '') (rev s)))"

definition calm_store :: "int \<Rightarrow> webhook_env" where
  "calm_store t =
     \<lparr>statement_error = (\<lambda>s. None), collation_key = ascii_ci_key,
      server_time = (\<lambda>s. t), Date_now = t,
      new_Date = (\<lambda>a. case a of DateNumber n \<Rightarrow> Some (n div 1000) | DateString s \<Rightarrow> None)\<rparr>"

text \<open>
  Webhooks for the order \<open>order-M\<close>: the gateway reports \<open>DONE\<close>; the same event with
  another payment key, amount and method; the same event without a status; the same
  event with a status of 40 characters. A ledger whose payment of that order is
  \<open>FAILED\<close>, the same ledger with the \<open>DONE\<close> event on record since the time 1000, and a
  ledger whose payment of that order is \<open>PENDING\<close>.
\<close>

definition done_webhook :: webhookData where
  "done_webhook =
     \<lparr>eventType = Some ''PAYMENT_STATUS_CHANGED'', data_paymentKey = Some ''pk_1'',
      data_orderId = Some ''order-M'', data_status = Some ''DONE'',
      data_approvedAt = Some (DateNumber 990000), data_totalAmount = Some 15000,
      data_method = Some ''CARD''\<rparr>"

definition done_webhook_again :: webhookData where
  "done_webhook_again =
     done_webhook\<lparr>data_paymentKey := Some ''pk_2'', data_totalAmount := Some 99,
                  data_method := Some ''TRANSFER'', data_approvedAt := None\<rparr>"

definition statusless_webhook :: webhookData where
  "statusless_webhook = done_webhook\<lparr>data_status := None\<rparr>"

definition long_status_webhook :: webhookData where
  "long_status_webhook =
     done_webhook\<lparr>data_status := Some ''WAITING_FOR_DEPOSIT_CONFIRMATION_BY_BANK''\<rparr>"

definition failed_payment_db :: db where
  "failed_payment_db = example_ledger [example_payment 3 ''M'' 15000 10 FAILED]"

definition failed_payment_seen_db :: db where
  "failed_payment_seen_db =
     failed_payment_db\<lparr>payment_webhooks :=
       [\<lparr>wh_payment_id = 3, wh_pg_order_id = ''order-M'', wh_pg_payment_key = Some ''pk_1'',
         wh_event_type = ''PAYMENT_STATUS_CHANGED'', wh_status = Some ''DONE'',
         wh_webhook_data = done_webhook, wh_created_at = 1000\<rparr>]\<rparr>"

definition pending_payment_db :: db where
  "pending_payment_db =
     example_ledger [(example_payment 4 ''M'' 15000 10 PENDING)\<lparr>paid_at := None\<rparr>]"

text \<open>The three outcomes of \<open>processWebhook\<close>.\<close>

definition already_processed :: outcome where
  "already_processed = \<lparr>success = True, message = ''Already processed (idempotent)''\<rparr>"

definition invalid_transition :: outcome where
  "invalid_transition = \<lparr>success = False, message = ''Invalid status transition''\<rparr>"

definition processed :: outcome where
  "processed = \<lparr>success = True, message = ''Webhook processed successfully''\<rparr>"

section \<open>Notions used in the statements\<close>

text \<open>The aggregates a report lists.\<close>

fun report_settlements :: "report \<Rightarrow> settlement list" where
  "report_settlements ReportNoop = []"
| "report_settlements (ReportDryRun n k ss) = ss"
| "report_settlements (ReportSuccess n k a b c d ss) = ss"


text \<open>An aggregate without the identifier of its statement.\<close>

definition without_statementId :: "settlement \<Rightarrow> settlement" where
  "without_statementId s = s\<lparr>statementId := None\<rparr>"

text \<open>The total the run computes for a store from the selected payments.\<close>

definition store_total :: "pay_row list \<Rightarrow> string \<Rightarrow> int" where
  "store_total rows sid = reduce_amount_total (filter (\<lambda>r. row_store_id r = sid) rows)"




text \<open>Every row of \<open>payments\<close> with the identifier \<open>i\<close> is settled.\<close>

definition all_settled :: "nat \<Rightarrow> db \<Rightarrow> bool" where
  "all_settled i d = list_all (\<lambda>q. pay_id q = i \<longrightarrow> is_settled q) (payments d)"


section \<open>Facts about the number model\<close>

lemma bit_length_0 [simp]: "bit_length 0 = 0"
  by (simp add: bit_length.simps)

lemma bit_length_Suc_0 [simp]: "bit_length (Suc 0) = Suc 0"
  by (simp add: bit_length.simps[of "Suc 0"])

lemma bit_length_numeral [simp]:
  "bit_length (numeral (Num.Bit0 k)) = Suc (bit_length (numeral k))"
  "bit_length (numeral (Num.Bit1 k)) = Suc (bit_length (numeral k))"
  by (simp_all add: bit_length.simps[of "numeral (Num.Bit0 k)"]
        bit_length.simps[of "numeral (Num.Bit1 k)"])

lemma bit_length_le_iff: "bit_length n \<le> k \<longleftrightarrow> n < 2 ^ k"
proof (induction k arbitrary: n)
  case 0
  show ?case by (cases "n = 0") (simp_all add: bit_length.simps[of n])
next
  case (Suc k)
  show ?case
  proof (cases "n = 0")
    case True
    then show ?thesis by simp
  next
    case False
    have "bit_length n \<le> Suc k \<longleftrightarrow> bit_length (n div 2) \<le> k"
      using False by (simp add: bit_length.simps[of n])
    also have "\<dots> \<longleftrightarrow> n div 2 < 2 ^ k" by (rule Suc.IH)
    also have "\<dots> \<longleftrightarrow> n < 2 ^ Suc k" by auto
    finally show ?thesis .
  qed
qed

text \<open>Integers of at most 53 bits are doubles: nothing is rounded.\<close>

lemma round53_exact: "\<bar>x\<bar> < 2 ^ 53 \<Longrightarrow> round53 x = x"
proof -
  assume "\<bar>x\<bar> < 2 ^ 53"
  then have "nat \<bar>x\<bar> < 2 ^ 53" by (simp add: nat_less_iff)
  then have "bit_length (nat \<bar>x\<bar>) \<le> 53" by (simp add: bit_length_le_iff)
  then show ?thesis by (simp add: round53_def Let_def)
qed

lemma js_add_exact: "\<bar>a + b\<bar> < 2 ^ 53 \<Longrightarrow> js_add a b = a + b"
  by (simp add: js_add_def round53_exact)

lemma js_sub_exact: "\<bar>a - b\<bar> < 2 ^ 53 \<Longrightarrow> js_sub a b = a - b"
  by (simp add: js_sub_def round53_exact)

lemma div_between:
  fixes a b q :: int
  assumes "b * q \<le> a" "a < b * (q + 1)"
  shows "a div b = q"
proof -
  have "a = b * q + (a - b * q)" by simp
  moreover have "0 \<le> a - b * q" using assms by simp
  moreover have "a - b * q < b" using assms by (simp add: algebra_simps)
  ultimately show ?thesis by (rule int_div_pos_eq)
qed

text \<open>
  Rounding a positive number of more than 53 bits: the result is a multiple of the unit
  \<open>2^s\<close> in the last place, not below the truncation and at most half a unit above the
  number.
\<close>

lemma round53_pos_bounds:
  fixes P :: int
  assumes "0 < P" and big: "53 < bit_length (nat P)"
  defines "s \<equiv> bit_length (nat P) - 53"
  shows "\<exists>R. round53 P = R \<and> (P div 2 ^ s) * 2 ^ s \<le> R \<and> 2 * R \<le> 2 * P + 2 ^ s"
proof -
  define m where "m = P div 2 ^ s"
  define r where "r = P mod 2 ^ s"
  define m' where "m' = (if 2 ^ s < 2 * r \<or> (2 * r = 2 ^ s \<and> odd m) then m + 1 else m)"
  have abs: "\<bar>P\<bar> = P" and sg: "sgn P = 1" using assms by simp_all
  have R: "round53 P = m' * 2 ^ s"
    using big unfolding round53_def Let_def abs sg m'_def m_def r_def s_def by simp
  have P: "P = m * 2 ^ s + r"
    unfolding m_def r_def using div_mult_mod_eq[of P "2 ^ s"] by simp
  have r0: "0 \<le> r" unfolding r_def by simp
  have pw: "(0::int) < 2 ^ s" by simp
  have low: "m * 2 ^ s \<le> m' * 2 ^ s"
    unfolding m'_def using pw by (simp add: distrib_right)
  have up: "2 * (m' * 2 ^ s) \<le> 2 * P + 2 ^ s"
  proof (cases "2 ^ s < 2 * r \<or> (2 * r = 2 ^ s \<and> odd m)")
    case True
    then have "m' = m + 1" by (simp add: m'_def)
    moreover have "2 ^ s \<le> 2 * r" using True by auto
    ultimately show ?thesis using P by (simp add: algebra_simps)
  next
    case False
    then have "m' = m" by (simp add: m'_def)
    then show ?thesis using P r0 pw by (simp add: algebra_simps)
  qed
  show ?thesis using R low up unfolding m_def by blast
qed

text \<open>
  Below \<open>2^52\<close> the double product with \<open>0.2\<close>, floored, is the exact fifth, floored:
  \<open>5 * 3602879701896397 = 2^54 + 1\<close>, so the product exceeds the exact fifth by
  \<open>n / (5 * 2^54)\<close>, and the rounding moves it by at most half a unit in the last place.
\<close>

lemma floor_times_rate_exact:
  assumes "0 \<le> n" "n < 2 ^ 52"
  shows "floor_times_rate n = n div 5"
proof -
  define P where "P = n * 3602879701896397"
  define k where "k = n div 5"
  define r where "r = n mod 5"
  define t where "t = P - k * 2 ^ 54"
  have n: "n = 5 * k + r" and r: "0 \<le> r" "r < 5" unfolding k_def r_def by simp_all
  have k0: "0 \<le> k" unfolding k_def using assms by simp
  have t5: "5 * t = r * 2 ^ 54 + n" unfolding t_def P_def using n by simp
  have t0: "0 \<le> t" using t5 r assms by simp
  have tup: "5 * t \<le> 4 * 2 ^ 54 + n" using t5 r by simp
  have Pk: "P = k * 2 ^ 54 + t" unfolding t_def by simp
  have goal: "round53 P div 2 ^ 54 = k"
  proof (cases "bit_length (nat P) \<le> 53")
    case True
    have "0 \<le> P" unfolding P_def using assms by simp
    then have "\<bar>P\<bar> = P" by simp
    with True have "round53 P = P" by (simp add: round53_def Let_def)
    moreover have "P div 2 ^ 54 = k"
    proof (rule div_between)
      show "2 ^ 54 * k \<le> P" using Pk t0 by simp
      show "P < 2 ^ 54 * (k + 1)" using Pk tup assms by simp
    qed
    ultimately show ?thesis by simp
  next
    case False
    define s where "s = bit_length (nat P) - 53"
    have Ppos: "0 < P" using False by (cases "P \<le> 0") (simp_all add: not_le)
    have "P < 2 ^ 104" unfolding P_def using assms by simp
    then have "nat P < 2 ^ 104" by (simp add: nat_less_iff)
    then have "bit_length (nat P) \<le> 104" by (simp add: bit_length_le_iff)
    then have s51: "s \<le> 51" unfolding s_def by simp
    from round53_pos_bounds[OF Ppos] False obtain R where
      R: "round53 P = R" and low: "(P div 2 ^ s) * 2 ^ s \<le> R" and up: "2 * R \<le> 2 * P + 2 ^ s"
      unfolding s_def by (auto simp: not_le)
    have split: "(2::int) ^ 54 = 2 ^ (54 - s) * 2 ^ s"
      using s51 by (simp flip: power_add)
    have "k * 2 ^ (54 - s) = (k * 2 ^ (54 - s) * 2 ^ s) div 2 ^ s" by simp
    also have "\<dots> \<le> P div 2 ^ s"
    proof (rule zdiv_mono1)
      show "k * 2 ^ (54 - s) * 2 ^ s \<le> P" using Pk t0 split by (simp add: mult.assoc)
      show "(0::int) < 2 ^ s" by simp
    qed
    finally have "k * 2 ^ (54 - s) \<le> P div 2 ^ s" .
    then have A: "(k * 2 ^ (54 - s)) * 2 ^ s \<le> (P div 2 ^ s) * 2 ^ s"
      by (rule mult_right_mono) simp
    have B: "k * 2 ^ 54 = (k * 2 ^ (54 - s)) * 2 ^ s"
      by (simp only: split mult.assoc)
    have lowk: "k * 2 ^ 54 \<le> R"
      unfolding B using A low by (rule order_trans)
    have "(2::int) ^ s \<le> 2 ^ 51" using s51 by (intro power_increasing) simp_all
    then have "10 * R < 10 * ((k + 1) * 2 ^ 54)"
      using up Pk tup assms by simp
    then have upk: "R < (k + 1) * 2 ^ 54" by simp
    have "R div 2 ^ 54 = k"
      by (rule div_between) (use lowk upk in \<open>simp_all add: mult.commute\<close>)
    then show ?thesis using R by simp
  qed
  show ?thesis
    unfolding floor_times_rate_def PLATFORM_COMMISSION_RATE_significand_def
    using goal unfolding P_def k_def by simp
qed

lemma floor_fifth: "\<lfloor>real_of_int n * 0.2\<rfloor> = n div 5"
proof -
  have "real_of_int n * 0.2 = real_of_int n / real_of_int 5" by simp
  then show ?thesis by (simp only: floor_divide_of_int_eq)
qed

text \<open>Sums of amounts that stay below \<open>2^53\<close> are exact.\<close>

lemma foldl_js_add_exact:
  assumes "\<forall>r \<in> set rows. 0 \<le> row_amount_total r" "0 \<le> a"
    and "a + sum_list (map row_amount_total rows) < 2 ^ 53"
  shows "foldl (\<lambda>sum p. js_add sum (row_amount_total p)) a rows =
         a + sum_list (map row_amount_total rows)"
  using assms
proof (induction rows arbitrary: a)
  case Nil
  then show ?case by simp
next
  case (Cons r rows)
  have nn: "0 \<le> sum_list (map row_amount_total rows)"
    using Cons.prems(1) by (intro sum_list_nonneg) auto
  have r0: "0 \<le> row_amount_total r" using Cons.prems(1) by simp
  have "js_add a (row_amount_total r) = a + row_amount_total r"
    using Cons.prems nn r0 by (intro js_add_exact) simp
  moreover have "foldl (\<lambda>sum p. js_add sum (row_amount_total p)) (a + row_amount_total r) rows =
      a + row_amount_total r + sum_list (map row_amount_total rows)"
    using Cons.prems r0 by (intro Cons.IH) simp_all
  ultimately show ?case by simp
qed

lemma reduce_amount_total_exact:
  assumes "\<forall>r \<in> set rows. 0 \<le> row_amount_total r"
    and "sum_list (map row_amount_total rows) < 2 ^ 53"
  shows "reduce_amount_total rows = sum_list (map row_amount_total rows)"
  unfolding reduce_amount_total_def
  using foldl_js_add_exact[OF assms(1), of 0] assms(2) by simp

section \<open>Status mapping\<close>

lemma mapTossStatusToOurStatus_table:
  "mapTossStatusToOurStatus ''READY'' = JString ''PENDING''"
  "mapTossStatusToOurStatus ''IN_PROGRESS'' = JString ''PENDING''"
  "mapTossStatusToOurStatus ''WAITING_FOR_DEPOSIT'' = JString ''PENDING''"
  "mapTossStatusToOurStatus ''DONE'' = JString ''SUCCESS''"
  "mapTossStatusToOurStatus ''CANCELED'' = JString ''CANCELED''"
  "mapTossStatusToOurStatus ''PARTIAL_CANCELED'' = JString ''CANCELED''"
  "mapTossStatusToOurStatus ''ABORTED'' = JString ''FAILED''"
  "mapTossStatusToOurStatus ''EXPIRED'' = JString ''FAILED''"
  by (simp_all add: mapTossStatusToOurStatus_def statusMap_def)

lemma mapTossStatusToOurStatus_default:
  assumes "s \<notin> fst ` set statusMap" "s \<notin> set objectPrototypeKeys"
  shows "mapTossStatusToOurStatus s = JString ''PENDING''"
proof -
  have "map_of statusMap s = None" using assms(1) by (simp add: map_of_eq_None_iff)
  then show ?thesis using assms(2) by (simp add: mapTossStatusToOurStatus_def)
qed

text \<open>
  Claim C9. The mapping is total and never throws, returns the eight entries of the table,
  and is said to return \<open>PENDING\<close> for every other string. The last part fails for the
  keys that an object literal inherits: for the string \<open>constructor\<close> the lookup
  \<open>statusMap[tossStatus]\<close> finds \<open>Object.prototype.constructor\<close>, which is truthy, so the
  default is not taken and the function returns that inherited member, not \<open>PENDING\<close>.
\<close>

theorem mapTossStatusToOurStatus_inherited_key:
  "mapTossStatusToOurStatus ''constructor'' = JInherited ''constructor'' \<and>
   mapTossStatusToOurStatus ''constructor'' \<noteq> JString ''PENDING'' \<and>
   ''constructor'' \<notin> fst ` set statusMap"
  by (simp add: mapTossStatusToOurStatus_def statusMap_def objectPrototypeKeys_def)

section \<open>Facts about the run as a transaction\<close>

lemma fold_max_ge: "a \<le> fold max ids (a::nat)"
proof (induction ids arbitrary: a)
  case Nil
  show ?case by simp
next
  case (Cons i ids)
  have "a \<le> max i a" by simp
  also have "\<dots> \<le> fold max ids (max i a)" by (rule Cons.IH)
  finally show ?case by simp
qed

lemma fold_max_mem: "i \<in> set ids \<Longrightarrow> i \<le> fold max ids (a::nat)"
proof (induction ids arbitrary: a)
  case Nil
  then show ?case by simp
next
  case (Cons j ids)
  show ?case
  proof (cases "i = j")
    case True
    have "i \<le> max j a" using True by simp
    also have "\<dots> \<le> fold max ids (max j a)" by (rule fold_max_ge)
    finally show ?thesis by simp
  next
    case False
    then have "i \<in> set ids" using Cons.prems by simp
    then show ?thesis using Cons.IH by simp
  qed
qed

lemma fresh_id_fresh: "fresh_id ids \<notin> set ids"
proof
  assume "fresh_id ids \<in> set ids"
  then have "fresh_id ids \<le> fold max ids 0" by (rule fold_max_mem)
  then show False by (simp add: fresh_id_def)
qed

lemma fresh_id_pos: "0 < fresh_id ids"
  by (simp add: fresh_id_def)

lemma update_log_other_tables [simp]:
  "payments (update_log i f d) = payments d"
  "reservations (update_log i f d) = reservations d"
  "payment_webhooks (update_log i f d) = payment_webhooks d"
  "settlement_statements (update_log i f d) = settlement_statements d"
  "settlement_items (update_log i f d) = settlement_items d"
  "settlement_errors (update_log i f d) = settlement_errors d"
  by (simp_all add: update_log_def)

lemma insert_log_other_tables [simp]:
  "payments (insert_log env i ps pe d) = payments d"
  "reservations (insert_log env i ps pe d) = reservations d"
  "payment_webhooks (insert_log env i ps pe d) = payment_webhooks d"
  "settlement_statements (insert_log env i ps pe d) = settlement_statements d"
  "settlement_items (insert_log env i ps pe d) = settlement_items d"
  "settlement_errors (insert_log env i ps pe d) = settlement_errors d"
  by (simp_all add: insert_log_def)

lemma update_fresh_log:
  assumes "i = fresh_id (map log_id (settlement_logs d))"
  shows "\<exists>l. settlement_logs (update_log i f (insert_log env i ps pe d)) = settlement_logs d @ [l]"
proof -
  have "\<forall>l \<in> set (settlement_logs d). log_id l \<noteq> i"
    using fresh_id_fresh[of "map log_id (settlement_logs d)"] assms
    by (metis image_eqI set_map)
  then have "map (\<lambda>l. if log_id l = i then f l else l) (settlement_logs d) = settlement_logs d"
    by (simp add: map_idI)
  then show ?thesis by (simp add: update_log_def insert_log_def)
qed

lemma concurrent_settlement_other_tables [simp]:
  "reservations (concurrent_settlement env d) = reservations d"
  "payment_webhooks (concurrent_settlement env d) = payment_webhooks d"
  "settlement_statements (concurrent_settlement env d) = settlement_statements d"
  "settlement_items (concurrent_settlement env d) = settlement_items d"
  "settlement_logs (concurrent_settlement env d) = settlement_logs d"
  "settlement_errors (concurrent_settlement env d) = settlement_errors d"
  by (simp_all add: concurrent_settlement_def concurrent_row_def)

text \<open>
  Whatever makes a run throw, what is left of it in \<open>settlement_logs\<close> is nothing: the
  table is the one the run found.
\<close>

lemma thrown_run_restores_logs:
  assumes "runSettlementPeriod env periodStart periodEnd dryRun d = (Inl e, d')"
  shows "settlement_logs d' = settlement_logs d"
  using assms
  unfolding runSettlementPeriod_def run_mutating_def run_failed_def rollback_def Let_def
  by (auto split: option.splits prod.splits if_splits sum.splits)

text \<open>
  Claim C1. A run that has inserted its row into \<open>settlement_logs\<close> and then fails is said
  to leave that row behind, with status \<open>failed\<close>. Here the two payments of store \<open>M\<close> are
  selected and the insert of the statement is rejected: the handler updates the row to
  \<open>failed\<close> and then rolls back the transaction in which the row was inserted, so the run
  throws and \<open>settlement_logs\<close> is as empty as before.
\<close>

theorem failed_run_leaves_no_log_row:
  "runSettlementPeriod failing_insert_env (Some 0) (Some 100) False example_db =
     (Inl (DbError ''Lock wait timeout exceeded''), example_db) \<and>
   settlement_logs example_db = []"
  by (simp add: runSettlementPeriod_def run_mutating_def run_failed_def rollback_def
      failing_insert_env_def quiet_env_def example_db_def example_ledger_def
      initial_state_def example_payment_def select_payments_def eligible_def to_row_def storeMap_def
      reduce_amount_total_def insert_log_def fresh_id_def concurrent_settlement_def concurrent_row_def
      logSettlementError_def js_add_def js_sub_def round53_def floor_times_rate_def
      PLATFORM_COMMISSION_RATE_significand_def Let_def)

text \<open>
  Claim C7. A run with \<open>dryRun = true\<close>, whatever its outcome, leaves the payments (their
  \<open>is_settled\<close> flags and statement references with them), the statements and the items as
  they were; the only table it may write is \<open>settlement_logs\<close>, where it adds at most its
  own row.
\<close>

theorem dry_run_writes_only_the_log:
  assumes "runSettlementPeriod env periodStart periodEnd True d = (res, d')"
  shows "payments d' = payments d \<and>
         settlement_statements d' = settlement_statements d \<and>
         settlement_items d' = settlement_items d \<and>
         settlement_errors d' = settlement_errors d \<and>
         reservations d' = reservations d \<and>
         payment_webhooks d' = payment_webhooks d \<and>
         (settlement_logs d' = settlement_logs d \<or>
          (\<exists>l. settlement_logs d' = settlement_logs d @ [l]))"
proof -
  have frame: "payments d' = payments d \<and>
         settlement_statements d' = settlement_statements d \<and>
         settlement_items d' = settlement_items d \<and>
         settlement_errors d' = settlement_errors d \<and>
         reservations d' = reservations d \<and>
         payment_webhooks d' = payment_webhooks d"
    using assms
    unfolding runSettlementPeriod_def run_failed_def rollback_def Let_def
    by (auto split: option.splits prod.splits if_splits)
  have logs: "settlement_logs d' = settlement_logs d \<or>
          (\<exists>l. settlement_logs d' = settlement_logs d @ [l])"
    using assms update_fresh_log[OF refl, of d _ env]
    unfolding runSettlementPeriod_def run_failed_def rollback_def Let_def
    by (auto split: option.splits prod.splits if_splits)
  show ?thesis using frame logs by simp
qed

theorem dry_run_writes_only_the_log_witness:
  "fst (runSettlementPeriod quiet_env (Some 0) (Some 100) True example_db) =
     Inr (ReportDryRun 2 1
            [\<lparr>storeId = ''M'', statementId = None, totalSales = 40000,
              commissionAmount = 8000, payoutAmount = 32000, paymentsCount = 2\<rparr>]) \<and>
   payments (snd (runSettlementPeriod quiet_env (Some 0) (Some 100) True example_db)) =
     payments example_db \<and>
   settlement_statements (snd (runSettlementPeriod quiet_env (Some 0) (Some 100) True example_db)) = [] \<and>
   settlement_items (snd (runSettlementPeriod quiet_env (Some 0) (Some 100) True example_db)) = []"
proof -
  have run: "runSettlementPeriod quiet_env (Some 0) (Some 100) True example_db =
      (fst (runSettlementPeriod quiet_env (Some 0) (Some 100) True example_db),
       snd (runSettlementPeriod quiet_env (Some 0) (Some 100) True example_db))"
    by simp
  have rep: "fst (runSettlementPeriod quiet_env (Some 0) (Some 100) True example_db) =
     Inr (ReportDryRun 2 1
            [\<lparr>storeId = ''M'', statementId = None, totalSales = 40000,
              commissionAmount = 8000, payoutAmount = 32000, paymentsCount = 2\<rparr>])"
    by (simp add: runSettlementPeriod_def simulateSettlement_def
      quiet_env_def example_db_def example_ledger_def
      example_payment_def select_payments_def eligible_def to_row_def storeMap_def
      reduce_amount_total_def insert_log_def update_log_def fresh_id_def
      js_add_def js_sub_def round53_def floor_times_rate_def
      PLATFORM_COMMISSION_RATE_significand_def Let_def)
  have "settlement_statements example_db = []" "settlement_items example_db = []"
    by (simp_all add: example_db_def example_ledger_def)
  then show ?thesis
    using dry_run_writes_only_the_log[OF run] rep by simp
qed

section \<open>Facts about the grouping by store\<close>

lemma storeMap_snoc: "storeMap (ps @ [p]) = storeMap_push p (storeMap ps)"
  by (simp add: storeMap_def)

lemma storeMap_Nil [simp]: "storeMap [] = []"
  by (simp add: storeMap_def)

lemma storeMap_push_keys:
  "map fst (storeMap_push p m) =
     (if row_store_id p \<in> fst ` set m then map fst m else map fst m @ [row_store_id p])"
  by (induction p m rule: storeMap_push.induct) auto

lemma storeMap_push_distinct:
  "distinct (map fst m) \<Longrightarrow> distinct (map fst (storeMap_push p m))"
  by (simp add: storeMap_push_keys)

lemma storeMap_push_lookup:
  "map_of (storeMap_push p m) k =
     (if k = row_store_id p
      then Some ((case map_of m k of None \<Rightarrow> [] | Some v \<Rightarrow> v) @ [p])
      else map_of m k)"
  by (induction p m rule: storeMap_push.induct) auto

lemma storeMap_distinct: "distinct (map fst (storeMap ps))"
  by (induction ps rule: rev_induct) (simp_all add: storeMap_snoc storeMap_push_distinct)

text \<open>The entry of a store holds the payments of that store, in the order of the list.\<close>

lemma storeMap_lookup:
  "map_of (storeMap ps) k =
     (if filter (\<lambda>r. row_store_id r = k) ps = [] then None
      else Some (filter (\<lambda>r. row_store_id r = k) ps))"
proof (induction ps rule: rev_induct)
  case Nil
  show ?case by simp
next
  case (snoc p ps)
  show ?case
    unfolding storeMap_snoc storeMap_push_lookup snoc.IH by simp
qed

lemma storeMap_entry:
  assumes "(k, v) \<in> set (storeMap ps)"
  shows "v = filter (\<lambda>r. row_store_id r = k) ps" and "v \<noteq> []"
proof -
  have "map_of (storeMap ps) k = Some v"
    using assms storeMap_distinct by simp
  then show "v = filter (\<lambda>r. row_store_id r = k) ps" and "v \<noteq> []"
    unfolding storeMap_lookup by (auto split: if_splits)
qed

lemma storeMap_has_entry:
  assumes "r \<in> set ps"
  shows "(row_store_id r, filter (\<lambda>x. row_store_id x = row_store_id r) ps) \<in> set (storeMap ps)"
proof -
  have "filter (\<lambda>x. row_store_id x = row_store_id r) ps \<noteq> []"
    using assms by (auto simp: filter_empty_conv)
  then have "map_of (storeMap ps) (row_store_id r) =
      Some (filter (\<lambda>x. row_store_id x = row_store_id r) ps)"
    by (simp add: storeMap_lookup)
  then show ?thesis by (rule map_of_SomeD)
qed

lemma storeMap_push_sizes:
  "sum_list (map (\<lambda>e. length (snd e)) (storeMap_push p m)) =
     Suc (sum_list (map (\<lambda>e. length (snd e)) m))"
  by (induction p m rule: storeMap_push.induct) auto

lemma storeMap_sizes: "sum_list (map (\<lambda>e. length (snd e)) (storeMap ps)) = length ps"
  by (induction ps rule: rev_induct) (simp_all add: storeMap_snoc storeMap_push_sizes)

lemma storeMap_empty_iff: "storeMap ps = [] \<longleftrightarrow> ps = []"
proof
  assume "storeMap ps = []"
  then have "sum_list (map (\<lambda>e. length (snd e)) (storeMap ps)) = 0" by simp
  then show "ps = []" by (simp add: storeMap_sizes)
qed simp

section \<open>Facts about the iterations of the mutating path\<close>

lemma logSettlementError_tables [simp]:
  "payments (logSettlementError env e d) = payments d"
  "reservations (logSettlementError env e d) = reservations d"
  "payment_webhooks (logSettlementError env e d) = payment_webhooks d"
  "settlement_statements (logSettlementError env e d) = settlement_statements d"
  "settlement_items (logSettlementError env e d) = settlement_items d"
  "settlement_logs (logSettlementError env e d) = settlement_logs d"
  by (simp_all add: logSettlementError_def split: option.splits)

lemma update_claim_tables:
  "fst (update_claim s i d) = length (filter (claim_matches i) (payments d))"
  "payments (snd (update_claim s i d)) = map (claim_row s i) (payments d)"
  "reservations (snd (update_claim s i d)) = reservations d"
  "payment_webhooks (snd (update_claim s i d)) = payment_webhooks d"
  "settlement_statements (snd (update_claim s i d)) = settlement_statements d"
  "settlement_items (snd (update_claim s i d)) = settlement_items d"
  "settlement_logs (snd (update_claim s i d)) = settlement_logs d"
  by (simp_all add: update_claim_def)

lemma insert_statement_tables:
  "payments (snd (insert_statement env sid ps pe a b c n d)) = payments d"
  "reservations (snd (insert_statement env sid ps pe a b c n d)) = reservations d"
  "payment_webhooks (snd (insert_statement env sid ps pe a b c n d)) = payment_webhooks d"
  "settlement_items (snd (insert_statement env sid ps pe a b c n d)) = settlement_items d"
  "settlement_logs (snd (insert_statement env sid ps pe a b c n d)) = settlement_logs d"
  by (simp_all add: insert_statement_def Let_def)

text \<open>One round of the loop over the payments of a store, when the loop returns.\<close>

lemma settle_payments_Cons:
  assumes "settle_payments env logId sid stmtId (p # rows) st = Inr st'"
  obtains st1 where
    "settle_payments env logId sid stmtId rows st1 = Inr st'"
    "payments (conn st1) = payments (snd (update_claim stmtId (row_id p) (conn st)))"
    "settlement_statements (conn st1) = settlement_statements (conn st)"
    "settlement_logs (conn st1) = settlement_logs (conn st)"
    "settlementsResult st1 = settlementsResult st"
    "totalCommission st1 = totalCommission st"
    "totalPayout st1 = totalPayout st"
    "(fst (update_claim stmtId (row_id p) (conn st)) = 0 \<and>
        skippedPaymentCount st1 = skippedPaymentCount st + 1 \<and>
        successPaymentCount st1 = successPaymentCount st \<and>
        settlement_items (conn st1) = settlement_items (conn st)) \<or>
     (0 < fst (update_claim stmtId (row_id p) (conn st)) \<and>
        skippedPaymentCount st1 = skippedPaymentCount st \<and>
        successPaymentCount st1 = successPaymentCount st + 1 \<and>
        settlement_items (conn st1) = settlement_items (conn st) @
          [\<lparr>item_statement_id = stmtId, item_payment_id = row_id p,
            amount = row_amount_total p\<rparr>])"
proof -
  obtain n d1 where uc: "update_claim stmtId (row_id p) (conn st) = (n, d1)"
    by (cases "update_claim stmtId (row_id p) (conn st)")
  have n: "n = fst (update_claim stmtId (row_id p) (conn st))"
    and d1: "d1 = snd (update_claim stmtId (row_id p) (conn st))"
    using uc by simp_all
  have noerr: "query_error env (PaymentUpdate (row_id p)) = None"
    using assms by (cases "query_error env (PaymentUpdate (row_id p))") simp_all
  show thesis
  proof (cases "n = 0")
    case True
    let ?st1 = "st\<lparr>skippedPaymentCount := skippedPaymentCount st + 1,
                   conn := logSettlementError env
                     \<lparr>err_settlement_log_id = Some logId,
                      err_type = ''PAYMENT_ALREADY_SETTLED'',
                      err_payment_id = Some (row_id p), err_store_id = Some sid,
                      err_statement_id = Some stmtId,
                      err_message = ''payments UPDATE affectedRows = 0''\<rparr> d1\<rparr>"
    have "settle_payments env logId sid stmtId rows ?st1 = Inr st'"
      using assms noerr uc True by simp
    then show ?thesis
      by (rule that) (use True n d1 in \<open>simp_all add: update_claim_tables\<close>)
  next
    case False
    have noerr2: "query_error env (ItemInsert (row_id p)) = None"
      using assms noerr uc False by (cases "query_error env (ItemInsert (row_id p))") simp_all
    let ?st1 = "st\<lparr>successPaymentCount := successPaymentCount st + 1,
                   conn := d1\<lparr>settlement_items := settlement_items d1 @
                     [\<lparr>item_statement_id = stmtId, item_payment_id = row_id p,
                       amount = row_amount_total p\<rparr>]\<rparr>\<rparr>"
    have "settle_payments env logId sid stmtId rows ?st1 = Inr st'"
      using assms noerr noerr2 uc False by simp
    then show ?thesis
      by (rule that) (use False n d1 in \<open>simp_all add: update_claim_tables\<close>)
  qed
qed

lemma settle_payments_Inr:
  assumes "settle_payments env logId sid stmtId rows st = Inr st'"
  shows "settlementsResult st' = settlementsResult st \<and>
         totalCommission st' = totalCommission st \<and>
         totalPayout st' = totalPayout st \<and>
         settlement_statements (conn st') = settlement_statements (conn st) \<and>
         settlement_logs (conn st') = settlement_logs (conn st) \<and>
         successPaymentCount st \<le> successPaymentCount st' \<and>
         skippedPaymentCount st \<le> skippedPaymentCount st' \<and>
         successPaymentCount st' + skippedPaymentCount st' =
           successPaymentCount st + skippedPaymentCount st + length rows"
  using assms
proof (induction rows arbitrary: st)
  case Nil
  then show ?case by simp
next
  case (Cons p rows)
  from Cons.prems obtain st1 where
    rest: "settle_payments env logId sid stmtId rows st1 = Inr st'"
    and same: "settlement_statements (conn st1) = settlement_statements (conn st)"
      "settlement_logs (conn st1) = settlement_logs (conn st)"
      "settlementsResult st1 = settlementsResult st"
      "totalCommission st1 = totalCommission st" "totalPayout st1 = totalPayout st"
    and cnt: "(skippedPaymentCount st1 = skippedPaymentCount st + 1 \<and>
               successPaymentCount st1 = successPaymentCount st) \<or>
              (skippedPaymentCount st1 = skippedPaymentCount st \<and>
               successPaymentCount st1 = successPaymentCount st + 1)"
    by (rule settle_payments_Cons) blast
  from Cons.IH[OF rest] same cnt show ?case by auto
qed


lemma settle_stores_Cons:
  assumes "settle_stores env logId ps pe ((sid, rows) # groups) st = Inr st'"
    and "0 < reduce_amount_total rows"
  obtains stmtId st2 where
    "stmtId = fresh_id (map stmt_id (settlement_statements (conn st)))"
    "settle_payments env logId sid stmtId rows
       (st\<lparr>conn := snd (insert_statement env sid ps pe (reduce_amount_total rows)
                          (floor_times_rate (reduce_amount_total rows))
                          (js_sub (reduce_amount_total rows)
                             (floor_times_rate (reduce_amount_total rows)))
                          (length rows) (conn st)),
           totalCommission :=
             js_add (totalCommission st) (floor_times_rate (reduce_amount_total rows)),
           totalPayout :=
             js_add (totalPayout st)
               (js_sub (reduce_amount_total rows)
                  (floor_times_rate (reduce_amount_total rows)))\<rparr>) = Inr st2"
    "settle_stores env logId ps pe groups
       (st2\<lparr>settlementsResult := settlementsResult st2 @
          [\<lparr>storeId = sid, statementId = Some stmtId,
            totalSales = reduce_amount_total rows,
            commissionAmount = floor_times_rate (reduce_amount_total rows),
            payoutAmount = js_sub (reduce_amount_total rows)
                             (floor_times_rate (reduce_amount_total rows)),
            paymentsCount = length rows\<rparr>]\<rparr>) = Inr st'"
proof -
  let ?sales = "reduce_amount_total rows"
  let ?ins = "insert_statement env sid ps pe ?sales (floor_times_rate ?sales)
                (js_sub ?sales (floor_times_rate ?sales)) (length rows) (conn st)"
  have pos: "\<not> ?sales \<le> 0" using assms(2) by simp
  have noerr: "query_error env (StatementInsert sid) = None"
    using assms(1) pos by (cases "query_error env (StatementInsert sid)") (simp_all add: Let_def)
  obtain stmtId d1 where ins: "?ins = (stmtId, d1)" by (cases ?ins)
  have d1: "d1 = snd ?ins" using ins by simp
  have nz: "stmtId \<noteq> 0"
    using assms(1) pos noerr ins by (cases "stmtId = 0") (simp_all add: Let_def)
  have id: "stmtId = fresh_id (map stmt_id (settlement_statements (conn st)))"
    using ins nz by (auto simp: insert_statement_def Let_def split: if_splits)
  let ?st1 = "st\<lparr>conn := d1,
                 totalCommission := js_add (totalCommission st) (floor_times_rate ?sales),
                 totalPayout := js_add (totalPayout st)
                   (js_sub ?sales (floor_times_rate ?sales))\<rparr>"
  obtain st2 where sp: "settle_payments env logId sid stmtId rows ?st1 = Inr st2"
    using assms(1) pos noerr ins nz
    by (cases "settle_payments env logId sid stmtId rows ?st1") (simp_all add: Let_def)
  have rest: "settle_stores env logId ps pe groups
       (st2\<lparr>settlementsResult := settlementsResult st2 @
          [\<lparr>storeId = sid, statementId = Some stmtId, totalSales = ?sales,
            commissionAmount = floor_times_rate ?sales,
            payoutAmount = js_sub ?sales (floor_times_rate ?sales),
            paymentsCount = length rows\<rparr>]\<rparr>) = Inr st'"
    using assms(1) pos noerr ins nz sp by (simp add: Let_def)
  show thesis
    by (rule that[OF id _ rest]) (use sp d1 in simp)
qed

text \<open>The mutating path, when it returns and when it throws.\<close>

lemma run_mutating_Inr:
  assumes "run_mutating env logId ps pe rows working committed = (Inr rep, d')"
  obtains st where
    "settle_stores env logId ps pe (storeMap rows)
       (initial_state (concurrent_settlement env working)) = Inr st"
    "query_error env LogSuccessUpdate = None"
    "rep = ReportSuccess (length rows) (length (settlementsResult st))
             (successPaymentCount st) (skippedPaymentCount st)
             (totalPayout st) (totalCommission st) (settlementsResult st)"
    "payments d' = payments (conn st)"
    "settlement_statements d' = settlement_statements (conn st)"
    "settlement_items d' = settlement_items (conn st)"
proof (cases "settle_stores env logId ps pe (storeMap rows)
                (initial_state (concurrent_settlement env working))")
  case (Inl a)
  then have False
    using assms by (cases a) (simp add: run_mutating_def run_failed_def Let_def)
  then show ?thesis ..
next
  case (Inr st)
  show ?thesis
  proof (cases "query_error env LogSuccessUpdate")
    case (Some m)
    then have False
      using assms Inr by (simp add: run_mutating_def run_failed_def Let_def)
    then show ?thesis ..
  next
    case None
    have rep: "rep = ReportSuccess (length rows) (length (settlementsResult st))
             (successPaymentCount st) (skippedPaymentCount st)
             (totalPayout st) (totalCommission st) (settlementsResult st)"
      using assms Inr None by (simp add: run_mutating_def Let_def)
    have d': "payments d' = payments (conn st)"
      "settlement_statements d' = settlement_statements (conn st)"
      "settlement_items d' = settlement_items (conn st)"
      using assms Inr None by (auto simp add: run_mutating_def Let_def)
    show ?thesis by (rule that[OF Inr None rep d'])
  qed
qed

lemma run_mutating_Inl:
  assumes "run_mutating env logId ps pe rows working committed = (Inl e, d')"
  shows "d' = concurrent_settlement env committed"
proof (cases "settle_stores env logId ps pe (storeMap rows)
                (initial_state (concurrent_settlement env working))")
  case (Inl a)
  then show ?thesis
    using assms by (cases a) (simp add: run_mutating_def run_failed_def rollback_def Let_def)
next
  case (Inr st)
  then show ?thesis
    using assms
    by (cases "query_error env LogSuccessUpdate")
       (simp_all add: run_mutating_def run_failed_def rollback_def Let_def)
qed

section \<open>The mutating path against the simulation\<close>

lemma settle_stores_aggregates:
  assumes "settle_stores env logId ps pe groups st = Inr st'"
  shows "map without_statementId (settlementsResult st') =
         map without_statementId (settlementsResult st) @ simulate_stores groups"
  using assms
proof (induction groups arbitrary: st)
  case Nil
  then show ?case by simp
next
  case (Cons g groups)
  obtain sid rows where g: "g = (sid, rows)" by (cases g)
  show ?case
  proof (cases "reduce_amount_total rows \<le> 0")
    case True
    have "settle_stores env logId ps pe groups
            (st\<lparr>skippedPaymentCount := skippedPaymentCount st + length rows\<rparr>) = Inr st'"
      using Cons.prems g True by simp
    from Cons.IH[OF this] show ?thesis using g True by simp
  next
    case False
    then have pos: "0 < reduce_amount_total rows" by simp
    from Cons.prems g have run: "settle_stores env logId ps pe ((sid, rows) # groups) st = Inr st'"
      by simp
    from run pos show ?thesis
    proof (rule settle_stores_Cons)
      fix stmtId st2
      assume sp: "settle_payments env logId sid stmtId rows
         (st\<lparr>conn := snd (insert_statement env sid ps pe (reduce_amount_total rows)
                          (floor_times_rate (reduce_amount_total rows))
                          (js_sub (reduce_amount_total rows)
                             (floor_times_rate (reduce_amount_total rows)))
                          (length rows) (conn st)),
             totalCommission :=
               js_add (totalCommission st) (floor_times_rate (reduce_amount_total rows)),
             totalPayout :=
               js_add (totalPayout st)
                 (js_sub (reduce_amount_total rows)
                    (floor_times_rate (reduce_amount_total rows)))\<rparr>) = Inr st2"
        and rest: "settle_stores env logId ps pe groups
         (st2\<lparr>settlementsResult := settlementsResult st2 @
            [\<lparr>storeId = sid, statementId = Some stmtId,
              totalSales = reduce_amount_total rows,
              commissionAmount = floor_times_rate (reduce_amount_total rows),
              payoutAmount = js_sub (reduce_amount_total rows)
                               (floor_times_rate (reduce_amount_total rows)),
              paymentsCount = length rows\<rparr>]\<rparr>) = Inr st'"
      have same: "settlementsResult st2 = settlementsResult st"
        using settle_payments_Inr[OF sp] by simp
      from Cons.IH[OF rest] show ?thesis
        using same g False by (simp add: Let_def without_statementId_def)
    qed
  qed
qed

text \<open>
  Claim C10. For every list of eligible payments, when the mutating path returns its
  report (no update or insert has thrown), the dry-run computation on the same list gives
  the same number of statements and the same aggregates, store by store and in the same
  order: the same \<open>storeId\<close>, \<open>totalSales\<close>, \<open>commissionAmount\<close>, \<open>payoutAmount\<close> and
  \<open>paymentsCount\<close>; only \<open>statementId\<close>, which the simulation leaves \<open>null\<close>, differs.
\<close>

theorem simulation_agrees_with_mutating_path:
  assumes "run_mutating env logId periodStart periodEnd payments_list working committed =
             (Inr (ReportSuccess n k succeeded skipped payout commission settlements), d')"
  shows "simulateSettlement payments_list = (k, map without_statementId settlements)"
  using assms
proof (rule run_mutating_Inr)
  fix st
  assume loop: "settle_stores env logId periodStart periodEnd (storeMap payments_list)
       (initial_state (concurrent_settlement env working)) = Inr st"
    and rep: "ReportSuccess n k succeeded skipped payout commission settlements =
       ReportSuccess (length payments_list) (length (settlementsResult st))
             (successPaymentCount st) (skippedPaymentCount st)
             (totalPayout st) (totalCommission st) (settlementsResult st)"
  have k: "k = length (settlementsResult st)" and ss: "settlements = settlementsResult st"
    using rep by simp_all
  have "map without_statementId (settlementsResult st) = simulate_stores (storeMap payments_list)"
    using settle_stores_aggregates[OF loop] by (simp add: initial_state_def)
  then have sim: "simulate_stores (storeMap payments_list) = map without_statementId settlements"
    using ss by simp
  have "length (simulate_stores (storeMap payments_list)) = k"
    unfolding sim using k ss by simp
  then show ?thesis
    unfolding simulateSettlement_def Let_def using sim by simp
qed

theorem simulation_agrees_with_mutating_path_witness:
  "fst (run_mutating quiet_env 1 0 100 (select_payments 0 100 example_db) example_db example_db) =
     Inr (ReportSuccess 2 1 2 0 32000 8000
        [\<lparr>storeId = ''M'', statementId = Some 1, totalSales = 40000,
          commissionAmount = 8000, payoutAmount = 32000, paymentsCount = 2\<rparr>]) \<and>
   simulateSettlement (select_payments 0 100 example_db) =
     (1, [\<lparr>storeId = ''M'', statementId = None, totalSales = 40000,
           commissionAmount = 8000, payoutAmount = 32000, paymentsCount = 2\<rparr>])"
proof -
  let ?run = "run_mutating quiet_env 1 0 100 (select_payments 0 100 example_db) example_db example_db"
  have rep: "fst ?run =
     Inr (ReportSuccess 2 1 2 0 32000 8000
        [\<lparr>storeId = ''M'', statementId = Some 1, totalSales = 40000,
          commissionAmount = 8000, payoutAmount = 32000, paymentsCount = 2\<rparr>])"
    by (simp add: run_mutating_def initial_state_def
      quiet_env_def example_db_def example_ledger_def
      example_payment_def select_payments_def eligible_def to_row_def storeMap_def
      reduce_amount_total_def update_log_def fresh_id_def concurrent_settlement_def concurrent_row_def
      insert_statement_def update_claim_def claim_row_def claim_matches_def
      js_add_def js_sub_def round53_def floor_times_rate_def
      PLATFORM_COMMISSION_RATE_significand_def Let_def)
  have run: "?run = (Inr (ReportSuccess 2 1 2 0 32000 8000
        [\<lparr>storeId = ''M'', statementId = Some 1, totalSales = 40000,
          commissionAmount = 8000, payoutAmount = 32000, paymentsCount = 2\<rparr>]), snd ?run)"
    using rep by (metis prod.collapse)
  show ?thesis
    using simulation_agrees_with_mutating_path[OF run] rep
    by (simp add: without_statementId_def)
qed

section \<open>What the conditional updates do to the payments\<close>

lemma all_settled_payments_cong:
  "payments d' = payments d \<Longrightarrow> all_settled i d' = all_settled i d"
  by (simp add: all_settled_def)

lemma claim_row_cases:
  "claim_row s i q = q \<or>
   (is_settled (claim_row s i q) \<and> pay_id (claim_row s i q) = pay_id q \<and> pay_id q = i)"
  by (cases "claim_matches i q") (simp_all add: claim_row_def claim_matches_def)

lemma claim_row_settled: "pay_id (claim_row s i q) = i \<Longrightarrow> is_settled (claim_row s i q)"
  by (auto simp: claim_row_def claim_matches_def split: if_splits)

lemma claim_row_keeps_settled: "is_settled q \<Longrightarrow> is_settled (claim_row s i q)"
  by (simp add: claim_row_def claim_matches_def)

lemma claim_row_pay_id [simp]: "pay_id (claim_row s i q) = pay_id q"
  by (simp add: claim_row_def)

lemma claim_row_other: "pay_id q \<noteq> i \<Longrightarrow> claim_row s i q = q"
  by (simp add: claim_row_def claim_matches_def)

lemma update_claim_settles: "all_settled i (snd (update_claim s i d))"
  unfolding all_settled_def update_claim_tables list.pred_map list_all_iff
  using claim_row_settled by auto

lemma update_claim_keeps_settled:
  assumes "all_settled j d"
  shows "all_settled j (snd (update_claim s i d))"
  using assms claim_row_keeps_settled
  unfolding all_settled_def update_claim_tables list.pred_map list_all_iff
  by auto

lemma update_claim_unsettled_old:
  assumes "q \<in> set (payments (snd (update_claim s i d)))" "\<not> is_settled q"
  shows "q \<in> set (payments d)"
proof -
  from assms(1) obtain q0 where q0: "q0 \<in> set (payments d)" and q: "q = claim_row s i q0"
    unfolding update_claim_tables by auto
  from claim_row_cases[of s i q0] assms(2) q have "q = q0" by auto
  then show ?thesis using q0 by simp
qed

lemma concurrent_row_cases:
  "concurrent_row env q = q \<or>
   (is_settled (concurrent_row env q) \<and> concurrently_settled env (pay_id q) \<noteq> None)"
  by (cases "concurrently_settled env (pay_id q)"; cases "is_settled q")
     (simp_all add: concurrent_row_def)

lemma concurrent_row_pay_id [simp]: "pay_id (concurrent_row env q) = pay_id q"
  by (cases "concurrently_settled env (pay_id q)"; cases "is_settled q")
     (simp_all add: concurrent_row_def)

lemma concurrent_settlement_unsettled_old:
  assumes "q \<in> set (payments (concurrent_settlement env d))" "\<not> is_settled q"
  shows "q \<in> set (payments d)"
proof -
  from assms(1) obtain q0 where q0: "q0 \<in> set (payments d)" and q: "q = concurrent_row env q0"
    unfolding concurrent_settlement_def by auto
  from concurrent_row_cases[of env q0] assms(2) q have "q = q0" by auto
  then show ?thesis using q0 by simp
qed

lemma settle_payments_keeps_settled:
  assumes "settle_payments env logId sid stmtId rows st = Inr st'" "all_settled j (conn st)"
  shows "all_settled j (conn st')"
  using assms
proof (induction rows arbitrary: st)
  case Nil
  then show ?case by simp
next
  case (Cons p rows)
  have "\<exists>st1. settle_payments env logId sid stmtId rows st1 = Inr st' \<and>
      payments (conn st1) = payments (snd (update_claim stmtId (row_id p) (conn st)))"
    using Cons.prems(1)
  proof (rule settle_payments_Cons)
    fix st1 :: run_state
    assume "settle_payments env logId sid stmtId rows st1 = Inr st'"
      and "payments (conn st1) = payments (snd (update_claim stmtId (row_id p) (conn st)))"
    then show ?thesis by (intro exI conjI)
  qed
  then obtain st1 where
    rest: "settle_payments env logId sid stmtId rows st1 = Inr st'"
    and pay: "payments (conn st1) = payments (snd (update_claim stmtId (row_id p) (conn st)))"
    by (elim exE conjE)
  have "all_settled j (conn st1)"
    using update_claim_keeps_settled[OF Cons.prems(2)] all_settled_payments_cong[OF pay] by simp
  then show ?case using Cons.IH[OF rest] by simp
qed

lemma settle_payments_settles:
  assumes "settle_payments env logId sid stmtId rows st = Inr st'" "r \<in> set rows"
  shows "all_settled (row_id r) (conn st')"
  using assms
proof (induction rows arbitrary: st)
  case Nil
  then show ?case by simp
next
  case (Cons p rows)
  have "\<exists>st1. settle_payments env logId sid stmtId rows st1 = Inr st' \<and>
      payments (conn st1) = payments (snd (update_claim stmtId (row_id p) (conn st)))"
    using Cons.prems(1)
  proof (rule settle_payments_Cons)
    fix st1 :: run_state
    assume "settle_payments env logId sid stmtId rows st1 = Inr st'"
      and "payments (conn st1) = payments (snd (update_claim stmtId (row_id p) (conn st)))"
    then show ?thesis by (intro exI conjI)
  qed
  then obtain st1 where
    rest: "settle_payments env logId sid stmtId rows st1 = Inr st'"
    and pay: "payments (conn st1) = payments (snd (update_claim stmtId (row_id p) (conn st)))"
    by (elim exE conjE)
  show ?case
  proof (cases "r = p")
    case True
    have "all_settled (row_id r) (conn st1)"
      using update_claim_settles all_settled_payments_cong[OF pay] True by simp
    then show ?thesis using settle_payments_keeps_settled[OF rest] by simp
  next
    case False
    then have "r \<in> set rows" using Cons.prems(2) by simp
    then show ?thesis using Cons.IH[OF rest] by simp
  qed
qed

lemma settle_payments_unsettled_old:
  assumes "settle_payments env logId sid stmtId rows st = Inr st'"
    and "q \<in> set (payments (conn st'))" "\<not> is_settled q"
  shows "q \<in> set (payments (conn st))"
  using assms
proof (induction rows arbitrary: st)
  case Nil
  then show ?case by simp
next
  case (Cons p rows)
  have "\<exists>st1. settle_payments env logId sid stmtId rows st1 = Inr st' \<and>
      payments (conn st1) = payments (snd (update_claim stmtId (row_id p) (conn st)))"
    using Cons.prems(1)
  proof (rule settle_payments_Cons)
    fix st1 :: run_state
    assume "settle_payments env logId sid stmtId rows st1 = Inr st'"
      and "payments (conn st1) = payments (snd (update_claim stmtId (row_id p) (conn st)))"
    then show ?thesis by (intro exI conjI)
  qed
  then obtain st1 where
    rest: "settle_payments env logId sid stmtId rows st1 = Inr st'"
    and pay: "payments (conn st1) = payments (snd (update_claim stmtId (row_id p) (conn st)))"
    by (elim exE conjE)
  have "q \<in> set (payments (conn st1))"
    using Cons.IH[OF rest Cons.prems(2,3)] .
  then show ?case
    unfolding pay using Cons.prems(3) by (rule update_claim_unsettled_old)
qed

text \<open>The same three facts for the loop over the stores.\<close>

lemma settle_stores_step:
  assumes "settle_stores env logId ps pe ((sid, rows) # groups) st = Inr st'"
  shows "\<exists>st2. settle_stores env logId ps pe groups st2 = Inr st' \<and>
    (if reduce_amount_total rows \<le> 0 then payments (conn st2) = payments (conn st)
     else \<exists>stmtId st1 stx. payments (conn st1) = payments (conn st) \<and>
          settle_payments env logId sid stmtId rows st1 = Inr stx \<and>
          payments (conn st2) = payments (conn stx))"
proof (cases "reduce_amount_total rows \<le> 0")
  case True
  have "settle_stores env logId ps pe groups
          (st\<lparr>skippedPaymentCount := skippedPaymentCount st + length rows\<rparr>) = Inr st'"
    using assms True by simp
  moreover have "payments (conn (st\<lparr>skippedPaymentCount := skippedPaymentCount st + length rows\<rparr>)) =
      payments (conn st)" by simp
  ultimately show ?thesis using True by (intro exI[of _ "st\<lparr>skippedPaymentCount := skippedPaymentCount st + length rows\<rparr>"]) simp
next
  case False
  then have pos: "0 < reduce_amount_total rows" by simp
  from assms pos show ?thesis
  proof (rule settle_stores_Cons)
    fix stmtId :: nat and st2 :: run_state
    let ?st1 = "st\<lparr>conn := snd (insert_statement env sid ps pe (reduce_amount_total rows)
                          (floor_times_rate (reduce_amount_total rows))
                          (js_sub (reduce_amount_total rows)
                             (floor_times_rate (reduce_amount_total rows)))
                          (length rows) (conn st)),
             totalCommission :=
               js_add (totalCommission st) (floor_times_rate (reduce_amount_total rows)),
             totalPayout :=
               js_add (totalPayout st)
                 (js_sub (reduce_amount_total rows)
                    (floor_times_rate (reduce_amount_total rows)))\<rparr>"
    let ?st3 = "st2\<lparr>settlementsResult := settlementsResult st2 @
            [\<lparr>storeId = sid, statementId = Some stmtId,
              totalSales = reduce_amount_total rows,
              commissionAmount = floor_times_rate (reduce_amount_total rows),
              payoutAmount = js_sub (reduce_amount_total rows)
                               (floor_times_rate (reduce_amount_total rows)),
              paymentsCount = length rows\<rparr>]\<rparr>"
    assume sp: "settle_payments env logId sid stmtId rows ?st1 = Inr st2"
      and rest: "settle_stores env logId ps pe groups ?st3 = Inr st'"
    have a: "payments (conn ?st1) = payments (conn st)" by (simp add: insert_statement_tables)
    have c: "payments (conn ?st3) = payments (conn st2)" by simp
    have "\<exists>stmtId st1 stx. payments (conn st1) = payments (conn st) \<and>
          settle_payments env logId sid stmtId rows st1 = Inr stx \<and>
          payments (conn ?st3) = payments (conn stx)"
      using a sp c by (intro exI conjI)
    then show ?thesis
      using rest False by (intro exI[of _ ?st3]) simp
  qed
qed

lemma settle_stores_keeps_settled:
  assumes "settle_stores env logId ps pe groups st = Inr st'" "all_settled j (conn st)"
  shows "all_settled j (conn st')"
  using assms
proof (induction groups arbitrary: st)
  case Nil
  then show ?case by simp
next
  case (Cons g groups)
  obtain sid rows where g: "g = (sid, rows)" by (cases g)
  from settle_stores_step[OF Cons.prems(1)[unfolded g]] obtain st2 where
    rest: "settle_stores env logId ps pe groups st2 = Inr st'"
    and step: "if reduce_amount_total rows \<le> 0 then payments (conn st2) = payments (conn st)
     else \<exists>stmtId st1 stx. payments (conn st1) = payments (conn st) \<and>
          settle_payments env logId sid stmtId rows st1 = Inr stx \<and>
          payments (conn st2) = payments (conn stx)"
    by (elim exE conjE)
  have skip: "reduce_amount_total rows \<le> 0 \<Longrightarrow> payments (conn st2) = payments (conn st)"
    using step by simp
  have work: "0 < reduce_amount_total rows \<Longrightarrow>
       \<exists>stmtId st1 stx. payments (conn st1) = payments (conn st) \<and>
          settle_payments env logId sid stmtId rows st1 = Inr stx \<and>
          payments (conn st2) = payments (conn stx)"
    using step by simp
  have "all_settled j (conn st2)"
  proof (cases "reduce_amount_total rows \<le> 0")
    case True
    then show ?thesis using all_settled_payments_cong[OF skip] Cons.prems(2) by simp
  next
    case False
    then have "0 < reduce_amount_total rows" by simp
    from work[OF this] obtain stmtId st1 stx where
      a: "payments (conn st1) = payments (conn st)"
      and b: "settle_payments env logId sid stmtId rows st1 = Inr stx"
      and c: "payments (conn st2) = payments (conn stx)"
      by (elim exE conjE)
    have "all_settled j (conn st1)"
      using Cons.prems(2) all_settled_payments_cong[OF a] by simp
    then have "all_settled j (conn stx)" by (rule settle_payments_keeps_settled[OF b])
    then show ?thesis using all_settled_payments_cong[OF c] by simp
  qed
  then show ?case using Cons.IH[OF rest] by simp
qed

lemma settle_stores_settles:
  assumes "settle_stores env logId ps pe groups st = Inr st'"
    and "(k, v) \<in> set groups" "0 < reduce_amount_total v" "r \<in> set v"
  shows "all_settled (row_id r) (conn st')"
  using assms
proof (induction groups arbitrary: st)
  case Nil
  then show ?case by simp
next
  case (Cons g groups)
  obtain sid rows where g: "g = (sid, rows)" by (cases g)
  from settle_stores_step[OF Cons.prems(1)[unfolded g]] obtain st2 where
    rest: "settle_stores env logId ps pe groups st2 = Inr st'"
    and step: "if reduce_amount_total rows \<le> 0 then payments (conn st2) = payments (conn st)
     else \<exists>stmtId st1 stx. payments (conn st1) = payments (conn st) \<and>
          settle_payments env logId sid stmtId rows st1 = Inr stx \<and>
          payments (conn st2) = payments (conn stx)"
    by (elim exE conjE)
  have skip: "reduce_amount_total rows \<le> 0 \<Longrightarrow> payments (conn st2) = payments (conn st)"
    using step by simp
  have work: "0 < reduce_amount_total rows \<Longrightarrow>
       \<exists>stmtId st1 stx. payments (conn st1) = payments (conn st) \<and>
          settle_payments env logId sid stmtId rows st1 = Inr stx \<and>
          payments (conn st2) = payments (conn stx)"
    using step by simp
  show ?case
  proof (cases "(k, v) = g")
    case True
    then have rv: "rows = v" using g by simp
    then have "0 < reduce_amount_total rows" using Cons.prems(3) by simp
    from work[OF this] obtain stmtId st1 stx where
      b: "settle_payments env logId sid stmtId v st1 = Inr stx"
      and c: "payments (conn st2) = payments (conn stx)"
      unfolding rv by (elim exE conjE)
    have "all_settled (row_id r) (conn stx)"
      using settle_payments_settles[OF b Cons.prems(4)] .
    then have "all_settled (row_id r) (conn st2)"
      using all_settled_payments_cong[OF c] by simp
    then show ?thesis by (rule settle_stores_keeps_settled[OF rest])
  next
    case False
    then have "(k, v) \<in> set groups" using Cons.prems(2) by auto
    then show ?thesis using Cons.IH[OF rest _ Cons.prems(3,4)] by simp
  qed
qed

lemma settle_stores_unsettled_old:
  assumes "settle_stores env logId ps pe groups st = Inr st'"
    and "q \<in> set (payments (conn st'))" "\<not> is_settled q"
  shows "q \<in> set (payments (conn st))"
  using assms
proof (induction groups arbitrary: st)
  case Nil
  then show ?case by simp
next
  case (Cons g groups)
  obtain sid rows where g: "g = (sid, rows)" by (cases g)
  from settle_stores_step[OF Cons.prems(1)[unfolded g]] obtain st2 where
    rest: "settle_stores env logId ps pe groups st2 = Inr st'"
    and step: "if reduce_amount_total rows \<le> 0 then payments (conn st2) = payments (conn st)
     else \<exists>stmtId st1 stx. payments (conn st1) = payments (conn st) \<and>
          settle_payments env logId sid stmtId rows st1 = Inr stx \<and>
          payments (conn st2) = payments (conn stx)"
    by (elim exE conjE)
  have skip: "reduce_amount_total rows \<le> 0 \<Longrightarrow> payments (conn st2) = payments (conn st)"
    using step by simp
  have work: "0 < reduce_amount_total rows \<Longrightarrow>
       \<exists>stmtId st1 stx. payments (conn st1) = payments (conn st) \<and>
          settle_payments env logId sid stmtId rows st1 = Inr stx \<and>
          payments (conn st2) = payments (conn stx)"
    using step by simp
  have q2: "q \<in> set (payments (conn st2))"
    using Cons.IH[OF rest Cons.prems(2,3)] .
  show ?case
  proof (cases "reduce_amount_total rows \<le> 0")
    case True
    then show ?thesis using skip q2 by simp
  next
    case False
    then have "0 < reduce_amount_total rows" by simp
    from work[OF this] obtain stmtId st1 stx where
      a: "payments (conn st1) = payments (conn st)"
      and b: "settle_payments env logId sid stmtId rows st1 = Inr stx"
      and c: "payments (conn st2) = payments (conn stx)"
      by (elim exE conjE)
    have "q \<in> set (payments (conn stx))" using q2 c by simp
    then have "q \<in> set (payments (conn st1))"
      using settle_payments_unsettled_old[OF b _ Cons.prems(3)] by simp
    then show ?thesis using a by simp
  qed
qed

text \<open>When every group is skipped the loop changes nothing but the skip counter.\<close>

lemma settle_stores_all_skipped:
  assumes "\<forall>g \<in> set groups. reduce_amount_total (snd g) \<le> 0"
  shows "settle_stores env logId ps pe groups st =
         Inr (st\<lparr>skippedPaymentCount :=
                   skippedPaymentCount st + sum_list (map (\<lambda>e. length (snd e)) groups)\<rparr>)"
  using assms
proof (induction groups arbitrary: st)
  case Nil
  show ?case by simp
next
  case (Cons g groups)
  obtain sid rows where g: "g = (sid, rows)" by (cases g)
  have np: "reduce_amount_total rows \<le> 0" using Cons.prems g by simp
  have "\<forall>g \<in> set groups. reduce_amount_total (snd g) \<le> 0" using Cons.prems by simp
  from Cons.IH[OF this] show ?case
    unfolding g using np by (simp add: add.assoc)
qed

text \<open>Amounts that are not negative sum to zero or less only when all of them are zero.\<close>

lemma round53_pos: "0 < x \<Longrightarrow> 0 < round53 x"
proof -
  assume x: "0 < x"
  show ?thesis
  proof (cases "bit_length (nat x) \<le> 53")
    case True
    then show ?thesis using x by (simp add: round53_def Let_def)
  next
    case False
    then have big: "53 < bit_length (nat x)" by simp
    define s where "s = bit_length (nat x) - 53"
    from round53_pos_bounds[OF x big] have low: "(x div 2 ^ s) * 2 ^ s \<le> round53 x"
      unfolding s_def by auto
    have "\<not> bit_length (nat x) \<le> s" using big unfolding s_def by simp
    then have "2 ^ s \<le> nat x" by (simp add: bit_length_le_iff)
    then have "(2::int) ^ s \<le> x" using x by (simp add: le_nat_iff)
    then have "1 \<le> x div 2 ^ s"
      using pos_imp_zdiv_pos_iff[of "2 ^ s" x] by simp
    then have "0 < (x div 2 ^ s) * 2 ^ s"
      by (intro mult_pos_pos) simp_all
    then show ?thesis using low by linarith
  qed
qed

lemma foldl_js_add_pos:
  assumes "\<forall>r \<in> set rows. 0 \<le> row_amount_total r" "0 < a"
  shows "0 < foldl (\<lambda>sum p. js_add sum (row_amount_total p)) a rows"
  using assms
proof (induction rows arbitrary: a)
  case Nil
  then show ?case by simp
next
  case (Cons r rows)
  have "0 < a + row_amount_total r" using Cons.prems by simp
  then have "0 < js_add a (row_amount_total r)" unfolding js_add_def by (rule round53_pos)
  then show ?case using Cons.IH Cons.prems(1) by simp
qed

lemma reduce_amount_total_nonpos:
  assumes "\<forall>r \<in> set rows. 0 \<le> row_amount_total r" "reduce_amount_total rows \<le> 0"
  shows "\<forall>r \<in> set rows. row_amount_total r = 0"
  using assms unfolding reduce_amount_total_def
proof (induction rows)
  case Nil
  show ?case by simp
next
  case (Cons r rows)
  have r0: "0 \<le> row_amount_total r" and rest0: "\<forall>x \<in> set rows. 0 \<le> row_amount_total x"
    using Cons.prems(1) by simp_all
  show ?case
  proof (cases "row_amount_total r = 0")
    case True
    then have "foldl (\<lambda>sum p. js_add sum (row_amount_total p)) 0 rows \<le> 0"
      using Cons.prems(2) by (simp add: js_add_def round53_def Let_def)
    then show ?thesis using Cons.IH[OF rest0] True by simp
  next
    case False
    then have "0 < 0 + row_amount_total r" using r0 by simp
    then have "0 < js_add 0 (row_amount_total r)" unfolding js_add_def by (rule round53_pos)
    then have "0 < foldl (\<lambda>sum p. js_add sum (row_amount_total p))
                      (js_add 0 (row_amount_total r)) rows"
      by (rule foldl_js_add_pos[OF rest0])
    then show ?thesis using Cons.prems(2) by simp
  qed
qed

lemma reduce_amount_total_zeros:
  assumes "\<forall>r \<in> set rows. row_amount_total r = 0"
  shows "reduce_amount_total rows = 0"
  using assms unfolding reduce_amount_total_def
  by (induction rows) (simp_all add: js_add_def round53_def Let_def)

section \<open>Running the same window twice\<close>

lemma select_payments_insert_log [simp]:
  "select_payments ps pe (insert_log env i ps' pe' d) = select_payments ps pe d"
  by (simp add: select_payments_def)

lemma select_payments_cong:
  "payments d' = payments d \<Longrightarrow> select_payments ps pe d' = select_payments ps pe d"
  by (simp add: select_payments_def)

lemma select_payments_row:
  "r \<in> set (select_payments ps pe d) \<longleftrightarrow>
   (\<exists>q \<in> set (payments d). eligible ps pe q \<and> r = to_row q)"
  by (auto simp: select_payments_def)

lemma select_payments_empty_iff:
  "select_payments ps pe d = [] \<longleftrightarrow> (\<forall>q \<in> set (payments d). \<not> eligible ps pe q)"
proof -
  have "select_payments ps pe d = [] \<longleftrightarrow> length (select_payments ps pe d) = 0"
    by simp
  also have "\<dots> \<longleftrightarrow> filter (eligible ps pe) (payments d) = []"
    unfolding select_payments_def length_sort length_map by simp
  also have "\<dots> \<longleftrightarrow> (\<forall>q \<in> set (payments d). \<not> eligible ps pe q)"
    by (simp add: filter_empty_conv)
  finally show ?thesis .
qed

text \<open>The run without \<open>dryRun\<close>, once the window is valid and the first two queries pass.\<close>

lemma runSettlementPeriod_unfold:
  assumes "ps < pe" "query_error env LogInsert = None" "query_error env SelectPayments = None"
  shows "runSettlementPeriod env (Some ps) (Some pe) False d =
     (if select_payments ps pe d = [] then
        (case query_error env LogNoopUpdate of
           Some m \<Rightarrow>
             run_failed env (fresh_id (map log_id (settlement_logs d))) (DbError m)
               (insert_log env (fresh_id (map log_id (settlement_logs d))) ps pe d) d
         | None \<Rightarrow>
             (Inr ReportNoop,
              update_log (fresh_id (map log_id (settlement_logs d)))
                (\<lambda>l. l\<lparr>ended_at := Some (clock_ended env),
                        log_status := ''noop'', log_message := MsgNoTarget,
                        total_payments := 0\<rparr>)
                (insert_log env (fresh_id (map log_id (settlement_logs d))) ps pe d)))
      else run_mutating env (fresh_id (map log_id (settlement_logs d))) ps pe
             (select_payments ps pe d)
             (insert_log env (fresh_id (map log_id (settlement_logs d))) ps pe d) d)"
  using assms by (simp add: runSettlementPeriod_def Let_def)

lemma runSettlementPeriod_Inr:
  assumes "runSettlementPeriod env (Some ps) (Some pe) dryRun d = (Inr rep, d')"
  shows "ps < pe \<and> query_error env LogInsert = None \<and> query_error env SelectPayments = None"
proof -
  have v: "ps < pe"
    using assms by (cases "pe \<le> ps") (simp_all add: runSettlementPeriod_def)
  have a: "query_error env LogInsert = None"
    using assms v by (cases "query_error env LogInsert") (simp_all add: runSettlementPeriod_def)
  have b: "query_error env SelectPayments = None"
    using assms v a
    by (cases "query_error env SelectPayments")
       (simp_all add: runSettlementPeriod_def run_failed_def Let_def)
  show ?thesis using v a b by simp
qed

lemma run_mutating_all_skipped:
  assumes "\<forall>g \<in> set (storeMap rows). reduce_amount_total (snd g) \<le> 0"
  shows "run_mutating env logId ps pe rows working committed =
     (case query_error env LogSuccessUpdate of
        Some m \<Rightarrow>
          run_failed env logId (DbError m) (concurrent_settlement env working)
            (concurrent_settlement env committed)
      | None \<Rightarrow>
          (Inr (ReportSuccess (length rows) 0 0 (length rows) 0 0 []),
           update_log logId
             (\<lambda>l. l\<lparr>ended_at := Some (clock_ended env), log_status := ''success'',
                     log_message := MsgDone, total_payments := length rows,
                     total_statements := 0, success_payments := 0,
                     skipped_payments := length rows, total_payout := 0,
                     total_commission := 0\<rparr>)
             (concurrent_settlement env working)))"
  unfolding run_mutating_def Let_def settle_stores_all_skipped[OF assms]
  by (simp add: initial_state_def storeMap_sizes split: option.splits)

text \<open>
  After a committed run, a payment of the window that is still unsettled sits in a store
  whose total was not positive; with amounts that are not negative its amount is zero.
\<close>

lemma committed_run_leaves_zero_amounts:
  assumes amounts: "\<forall>p \<in> set (payments d). 0 \<le> amount_total p"
    and run: "runSettlementPeriod env (Some ps) (Some pe) False d = (Inr rep, d1)"
    and q: "q \<in> set (payments d1)" "eligible ps pe q"
  shows "q \<in> set (payments d) \<and> amount_total q = 0"
proof -
  let ?logId = "fresh_id (map log_id (settlement_logs d))"
  let ?rows = "select_payments ps pe d"
  from runSettlementPeriod_Inr[OF run] have pre: "ps < pe" "query_error env LogInsert = None"
    "query_error env SelectPayments = None" by simp_all
  note unf = runSettlementPeriod_unfold[OF pre, of d]
  have unsettled: "\<not> is_settled q" using q(2) by (simp add: eligible_def)
  show ?thesis
  proof (cases "?rows = []")
    case True
    have "payments d1 = payments d"
      using run unfolding unf using True
      by (cases "query_error env LogNoopUpdate") (auto simp: run_failed_def)
    then have "q \<in> set (payments d)" using q(1) by simp
    then have False using True q(2) by (simp add: select_payments_empty_iff)
    then show ?thesis ..
  next
    case False
    have mut: "run_mutating env ?logId ps pe ?rows (insert_log env ?logId ps pe d) d = (Inr rep, d1)"
      using run unfolding unf using False by simp
    from mut show ?thesis
    proof (rule run_mutating_Inr)
      fix st
      assume loop: "settle_stores env ?logId ps pe (storeMap ?rows)
          (initial_state (concurrent_settlement env (insert_log env ?logId ps pe d))) = Inr st"
        and pay: "payments d1 = payments (conn st)"
      have q_st: "q \<in> set (payments (conn st))" using q(1) pay by simp
      have "q \<in> set (payments (conn (initial_state
               (concurrent_settlement env (insert_log env ?logId ps pe d)))))"
        using settle_stores_unsettled_old[OF loop q_st unsettled] .
      then have "q \<in> set (payments (concurrent_settlement env (insert_log env ?logId ps pe d)))"
        by (simp add: initial_state_def)
      then have "q \<in> set (payments (insert_log env ?logId ps pe d))"
        using unsettled by (rule concurrent_settlement_unsettled_old)
      then have q_d: "q \<in> set (payments d)" by simp
      then have row: "to_row q \<in> set ?rows"
        using q(2) by (auto simp: select_payments_row)
      let ?v = "filter (\<lambda>x. row_store_id x = row_store_id (to_row q)) ?rows"
      have entry: "(row_store_id (to_row q), ?v) \<in> set (storeMap ?rows)"
        using row by (rule storeMap_has_entry)
      have in_v: "to_row q \<in> set ?v" using row by simp
      have np: "reduce_amount_total ?v \<le> 0"
      proof (rule ccontr)
        assume "\<not> reduce_amount_total ?v \<le> 0"
        then have "0 < reduce_amount_total ?v" by simp
        from settle_stores_settles[OF loop entry this in_v]
        have "all_settled (row_id (to_row q)) (conn st)" .
        then have "is_settled q"
          using q_st by (simp add: all_settled_def list_all_iff to_row_def)
        with unsettled show False by simp
      qed
      have "\<forall>r \<in> set ?v. 0 \<le> row_amount_total r"
        using amounts by (auto simp: select_payments_row to_row_def)
      from reduce_amount_total_nonpos[OF this np] in_v
      have "row_amount_total (to_row q) = 0" by blast
      then have "amount_total q = 0" by (simp add: to_row_def)
      with q_d show ?thesis by simp
    qed
  qed
qed

text \<open>
  Claim C4, as stated: after a committed run a second run over the same window selects
  no payment and returns the no-op report. The store \<open>Z\<close> has one successful payment of
  amount 0: the first run skips the store (\<open>totalSales <= 0\<close>) and leaves the payment
  unsettled, so the second run selects it again, and returns a report with the status
  \<open>success\<close> and one skipped payment, not the no-op report.
\<close>

theorem second_run_selects_skipped_payment:
  "fst (runSettlementPeriod quiet_env (Some 0) (Some 100) False zero_amount_db) =
     Inr (ReportSuccess 1 0 0 1 0 0 []) \<and>
   select_payments 0 100
     (snd (runSettlementPeriod quiet_env (Some 0) (Some 100) False zero_amount_db)) =
     [\<lparr>row_id = 7, row_store_id = ''Z'', row_amount_total = 0, row_paid_at = 10\<rparr>] \<and>
   fst (runSettlementPeriod quiet_env (Some 0) (Some 100) False
          (snd (runSettlementPeriod quiet_env (Some 0) (Some 100) False zero_amount_db))) =
     Inr (ReportSuccess 1 0 0 1 0 0 []) \<and>
   ReportSuccess 1 0 0 1 0 0 [] \<noteq> ReportNoop \<and>
   report_status (ReportSuccess 1 0 0 1 0 0 []) = ''success''"
  by (simp add: runSettlementPeriod_def run_mutating_def initial_state_def
      quiet_env_def zero_amount_db_def example_ledger_def
      example_payment_def select_payments_def eligible_def to_row_def storeMap_def
      reduce_amount_total_def insert_log_def update_log_def fresh_id_def
      concurrent_settlement_def concurrent_row_def
      js_add_def round53_def Let_def)

text \<open>
  Claim C4, amended. Amounts are not negative (\<open>amount_total INT UNSIGNED\<close>). After a
  committed run, a second run over the same window, whatever happens to it, creates no
  statement and no item. The only payments it can still select have the amount 0 (they
  belong to stores the first run skipped for \<open>totalSales <= 0\<close>): when it selects none it
  returns the no-op report, otherwise it skips them again and reports \<open>success\<close> with zero
  statements. In particular it is the no-op of the claim when every amount is positive.
\<close>

theorem second_run_creates_nothing:
  assumes amounts: "\<forall>p \<in> set (payments d). 0 \<le> amount_total p"
    and first: "runSettlementPeriod env (Some ps) (Some pe) False d = (Inr rep, d1)"
    and second: "runSettlementPeriod env' (Some ps) (Some pe) False d1 = (res, d2)"
  shows "settlement_statements d2 = settlement_statements d1 \<and>
         settlement_items d2 = settlement_items d1 \<and>
         (\<forall>r \<in> set (select_payments ps pe d1). row_amount_total r = 0) \<and>
         (\<forall>rep2. res = Inr rep2 \<longrightarrow>
            (if select_payments ps pe d1 = [] then rep2 = ReportNoop
             else rep2 = ReportSuccess (length (select_payments ps pe d1)) 0 0
                           (length (select_payments ps pe d1)) 0 0 [])) \<and>
         ((\<forall>p \<in> set (payments d). 0 < amount_total p) \<longrightarrow> select_payments ps pe d1 = [])"
proof -
  let ?rows = "select_payments ps pe d1"
  let ?logId = "fresh_id (map log_id (settlement_logs d1))"
  from runSettlementPeriod_Inr[OF first] have valid: "ps < pe" by simp
  have old: "q \<in> set (payments d) \<and> amount_total q = 0"
    if "q \<in> set (payments d1)" "eligible ps pe q" for q
    using committed_run_leaves_zero_amounts[OF amounts first that] .
  have zero: "\<forall>r \<in> set ?rows. row_amount_total r = 0"
    using old by (auto simp: select_payments_row to_row_def)
  have groups: "\<forall>g \<in> set (storeMap ?rows). reduce_amount_total (snd g) \<le> 0"
  proof
    fix g assume g: "g \<in> set (storeMap ?rows)"
    obtain k v where kv: "g = (k, v)" by (cases g)
    have "v = filter (\<lambda>r. row_store_id r = k) ?rows"
      using storeMap_entry(1)[of k v ?rows] g kv by simp
    then have "\<forall>r \<in> set v. row_amount_total r = 0" using zero by simp
    then have "reduce_amount_total v = 0" by (rule reduce_amount_total_zeros)
    then show "reduce_amount_total (snd g) \<le> 0" using kv by simp
  qed
  have positive: "(\<forall>p \<in> set (payments d). 0 < amount_total p) \<longrightarrow> ?rows = []"
  proof
    assume pos: "\<forall>p \<in> set (payments d). 0 < amount_total p"
    have "\<not> eligible ps pe q" if "q \<in> set (payments d1)" for q
    proof
      assume "eligible ps pe q"
      from old[OF that this] pos show False by force
    qed
    then show "?rows = []" by (simp add: select_payments_empty_iff)
  qed
  have main: "settlement_statements d2 = settlement_statements d1 \<and>
         settlement_items d2 = settlement_items d1 \<and>
         (\<forall>rep2. res = Inr rep2 \<longrightarrow>
            (if ?rows = [] then rep2 = ReportNoop
             else rep2 = ReportSuccess (length ?rows) 0 0 (length ?rows) 0 0 []))"
  proof (cases "query_error env' LogInsert")
    case (Some m)
    then show ?thesis
      using second valid by (auto simp: runSettlementPeriod_def rollback_def)
  next
    case ins: None
    show ?thesis
    proof (cases "query_error env' SelectPayments")
      case (Some m)
      then show ?thesis
        using second valid ins
        by (auto simp: runSettlementPeriod_def run_failed_def rollback_def Let_def)
    next
      case sel: None
      note unf = runSettlementPeriod_unfold[OF valid ins sel, of d1]
      show ?thesis
      proof (cases "?rows = []")
        case True
        show ?thesis
          using second unfolding unf using True
          by (cases "query_error env' LogNoopUpdate") (auto simp: run_failed_def rollback_def)
      next
        case False
        have "run_mutating env' ?logId ps pe ?rows (insert_log env' ?logId ps pe d1) d1 = (res, d2)"
          using second unfolding unf using False by simp
        then show ?thesis
          unfolding run_mutating_all_skipped[OF groups] using False
          by (cases "query_error env' LogSuccessUpdate") (auto simp: run_failed_def rollback_def)
      qed
    qed
  qed
  show ?thesis using main zero positive by blast
qed

theorem second_run_creates_nothing_witness:
  "map amount_total (payments example_db) = [15000, 25000] \<and>
   fst (runSettlementPeriod quiet_env (Some 0) (Some 100) False example_db) =
     Inr (ReportSuccess 2 1 2 0 32000 8000
        [\<lparr>storeId = ''M'', statementId = Some 1, totalSales = 40000,
          commissionAmount = 8000, payoutAmount = 32000, paymentsCount = 2\<rparr>]) \<and>
   select_payments 0 100
     (snd (runSettlementPeriod quiet_env (Some 0) (Some 100) False example_db)) = [] \<and>
   settlement_statements
     (snd (runSettlementPeriod quiet_env (Some 0) (Some 100) False
        (snd (runSettlementPeriod quiet_env (Some 0) (Some 100) False example_db)))) =
   settlement_statements
     (snd (runSettlementPeriod quiet_env (Some 0) (Some 100) False example_db)) \<and>
   settlement_items
     (snd (runSettlementPeriod quiet_env (Some 0) (Some 100) False
        (snd (runSettlementPeriod quiet_env (Some 0) (Some 100) False example_db)))) =
   settlement_items
     (snd (runSettlementPeriod quiet_env (Some 0) (Some 100) False example_db))"
proof -
  let ?run1 = "runSettlementPeriod quiet_env (Some 0) (Some 100) False example_db"
  let ?run2 = "runSettlementPeriod quiet_env (Some 0) (Some 100) False (snd ?run1)"
  have pos: "\<forall>p \<in> set (payments example_db). 0 < amount_total p"
    by (simp add: example_db_def example_ledger_def example_payment_def)
  then have amounts: "\<forall>p \<in> set (payments example_db). 0 \<le> amount_total p" by force
  have rep: "fst ?run1 = Inr (ReportSuccess 2 1 2 0 32000 8000
        [\<lparr>storeId = ''M'', statementId = Some 1, totalSales = 40000,
          commissionAmount = 8000, payoutAmount = 32000, paymentsCount = 2\<rparr>])"
    by (simp add: runSettlementPeriod_def run_mutating_def initial_state_def
      quiet_env_def example_db_def example_ledger_def
      example_payment_def select_payments_def eligible_def to_row_def storeMap_def
      reduce_amount_total_def insert_log_def update_log_def fresh_id_def
      concurrent_settlement_def concurrent_row_def
      insert_statement_def update_claim_def claim_row_def claim_matches_def
      js_add_def js_sub_def round53_def floor_times_rate_def
      PLATFORM_COMMISSION_RATE_significand_def Let_def)
  have first: "?run1 = (Inr (ReportSuccess 2 1 2 0 32000 8000
        [\<lparr>storeId = ''M'', statementId = Some 1, totalSales = 40000,
          commissionAmount = 8000, payoutAmount = 32000, paymentsCount = 2\<rparr>]), snd ?run1)"
    using rep by (metis prod.collapse)
  have second: "?run2 = (fst ?run2, snd ?run2)" by simp
  have am: "map amount_total (payments example_db) = [15000, 25000]"
    by (simp add: example_db_def example_ledger_def example_payment_def)
  from second_run_creates_nothing[OF amounts first second] pos rep am
  show ?thesis by simp
qed

section \<open>Stores whose total is not positive\<close>

lemma storeMap_push_filter_sizes:
  "sum_list (map (\<lambda>e. length (filter Q (snd e))) (storeMap_push p m)) =
     (if Q p then 1 else 0) + sum_list (map (\<lambda>e. length (filter Q (snd e))) m)"
  by (induction p m rule: storeMap_push.induct) auto

lemma storeMap_filter_sizes:
  "sum_list (map (\<lambda>e. length (filter Q (snd e))) (storeMap ps)) = length (filter Q ps)"
  by (induction ps rule: rev_induct) (simp_all add: storeMap_snoc storeMap_push_filter_sizes)

lemma storeMap_entry_total:
  assumes "(k, v) \<in> set (storeMap rows)"
  shows "store_total rows k = reduce_amount_total v"
  using storeMap_entry(1)[OF assms] by (simp add: store_total_def)

lemma storeMap_entry_store:
  assumes "(k, v) \<in> set (storeMap rows)" "r \<in> set v"
  shows "row_store_id r = k" "r \<in> set rows"
  using storeMap_entry(1)[OF assms(1)] assms(2) by auto

text \<open>The payments in stores with a positive total, counted store by store.\<close>

lemma storeMap_positive_sizes:
  "sum_list (map (\<lambda>e. if 0 < reduce_amount_total (snd e) then length (snd e) else 0)
      (storeMap rows)) =
   length (filter (\<lambda>r. 0 < store_total rows (row_store_id r)) rows)"
proof -
  let ?Q = "\<lambda>r. 0 < store_total rows (row_store_id r)"
  have "(if 0 < reduce_amount_total (snd e) then length (snd e) else 0) =
        length (filter ?Q (snd e))" if "e \<in> set (storeMap rows)" for e
  proof -
    obtain k v where e: "e = (k, v)" by (cases e)
    have kv: "(k, v) \<in> set (storeMap rows)" using that e by simp
    have "?Q r \<longleftrightarrow> 0 < reduce_amount_total v" if "r \<in> set v" for r
      using storeMap_entry_store(1)[OF kv that] storeMap_entry_total[OF kv] by simp
    then have "filter ?Q v = (if 0 < reduce_amount_total v then v else [])"
      by (simp add: filter_id_conv filter_empty_conv)
    then show ?thesis using e by simp
  qed
  then have "map (\<lambda>e. if 0 < reduce_amount_total (snd e) then length (snd e) else 0) (storeMap rows) =
      map (\<lambda>e. length (filter ?Q (snd e))) (storeMap rows)"
    by (intro map_cong refl)
  then show ?thesis by (simp only: storeMap_filter_sizes)
qed

lemma insert_statement_statements:
  "\<exists>s. stmt_store_id s = sid \<and>
       settlement_statements (snd (insert_statement env sid ps pe a b c n d)) =
         settlement_statements d @ [s]"
  by (simp add: insert_statement_def Let_def)

lemma settle_stores_statements:
  assumes "settle_stores env logId ps pe groups st = Inr st'"
    and "s \<in> set (settlement_statements (conn st'))"
  shows "s \<in> set (settlement_statements (conn st)) \<or>
         (\<exists>v. (stmt_store_id s, v) \<in> set groups \<and> 0 < reduce_amount_total v)"
  using assms
proof (induction groups arbitrary: st)
  case Nil
  then show ?case by simp
next
  case (Cons g groups)
  obtain sid rows where g: "g = (sid, rows)" by (cases g)
  show ?case
  proof (cases "reduce_amount_total rows \<le> 0")
    case True
    have "settle_stores env logId ps pe groups
            (st\<lparr>skippedPaymentCount := skippedPaymentCount st + length rows\<rparr>) = Inr st'"
      using Cons.prems(1) g True by simp
    from Cons.IH[OF this Cons.prems(2)] show ?thesis by auto
  next
    case False
    then have pos: "0 < reduce_amount_total rows" by simp
    from Cons.prems(1)[unfolded g] pos show ?thesis
    proof (rule settle_stores_Cons)
      fix stmtId :: nat and st2 :: run_state
      let ?ins = "snd (insert_statement env sid ps pe (reduce_amount_total rows)
                          (floor_times_rate (reduce_amount_total rows))
                          (js_sub (reduce_amount_total rows)
                             (floor_times_rate (reduce_amount_total rows)))
                          (length rows) (conn st))"
      let ?st1 = "st\<lparr>conn := ?ins,
             totalCommission :=
               js_add (totalCommission st) (floor_times_rate (reduce_amount_total rows)),
             totalPayout :=
               js_add (totalPayout st)
                 (js_sub (reduce_amount_total rows)
                    (floor_times_rate (reduce_amount_total rows)))\<rparr>"
      let ?st3 = "st2\<lparr>settlementsResult := settlementsResult st2 @
            [\<lparr>storeId = sid, statementId = Some stmtId,
              totalSales = reduce_amount_total rows,
              commissionAmount = floor_times_rate (reduce_amount_total rows),
              payoutAmount = js_sub (reduce_amount_total rows)
                               (floor_times_rate (reduce_amount_total rows)),
              paymentsCount = length rows\<rparr>]\<rparr>"
      assume sp: "settle_payments env logId sid stmtId rows ?st1 = Inr st2"
        and rest: "settle_stores env logId ps pe groups ?st3 = Inr st'"
      from insert_statement_statements obtain new where
        new: "stmt_store_id new = sid"
        "settlement_statements ?ins = settlement_statements (conn st) @ [new]"
        by blast
      have "settlement_statements (conn ?st3) = settlement_statements (conn ?st1)"
        using settle_payments_Inr[OF sp] by simp
      then have stm: "settlement_statements (conn ?st3) = settlement_statements (conn st) @ [new]"
        using new(2) by simp
      from Cons.IH[OF rest Cons.prems(2)]
      have "s \<in> set (settlement_statements (conn st)) \<or> s = new \<or>
            (\<exists>v. (stmt_store_id s, v) \<in> set groups \<and> 0 < reduce_amount_total v)"
        unfolding stm by auto
      then show ?thesis using new(1) pos g by auto
    qed
  qed
qed

lemma simulate_stores_keys:
  assumes "s \<in> set (simulate_stores groups)"
  shows "\<exists>v. (storeId s, v) \<in> set groups \<and> 0 < reduce_amount_total v"
  using assms
proof (induction groups)
  case Nil
  then show ?case by simp
next
  case (Cons g groups)
  obtain sid rows where g: "g = (sid, rows)" by (cases g)
  show ?case
  proof (cases "reduce_amount_total rows \<le> 0")
    case True
    then have "s \<in> set (simulate_stores groups)" using Cons.prems g by simp
    from Cons.IH[OF this] show ?thesis by auto
  next
    case False
    then have "storeId s = sid \<or> s \<in> set (simulate_stores groups)"
      using Cons.prems g by (auto simp: Let_def)
    then show ?thesis using Cons.IH False g by auto
  qed
qed

text \<open>Rows whose identifier no update names stay as they are.\<close>

lemma filter_claim_row_other:
  "i \<noteq> j \<Longrightarrow> filter (\<lambda>q. pay_id q = i) (map (claim_row s j) xs) = filter (\<lambda>q. pay_id q = i) xs"
  by (induction xs) (auto simp: claim_row_other)

lemma concurrent_row_other:
  "concurrently_settled env (pay_id q) = None \<Longrightarrow> concurrent_row env q = q"
  by (simp add: concurrent_row_def)

lemma filter_concurrent_row_other:
  "concurrently_settled env i = None \<Longrightarrow>
   filter (\<lambda>q. pay_id q = i) (map (concurrent_row env) xs) = filter (\<lambda>q. pay_id q = i) xs"
  by (induction xs) (auto simp: concurrent_row_other)

lemma settle_payments_untouched:
  assumes "settle_payments env logId sid stmtId rows st = Inr st'" "i \<notin> row_id ` set rows"
  shows "filter (\<lambda>q. pay_id q = i) (payments (conn st')) =
         filter (\<lambda>q. pay_id q = i) (payments (conn st))"
  using assms
proof (induction rows arbitrary: st)
  case Nil
  then show ?case by simp
next
  case (Cons p rows)
  have "\<exists>st1. settle_payments env logId sid stmtId rows st1 = Inr st' \<and>
      payments (conn st1) = payments (snd (update_claim stmtId (row_id p) (conn st)))"
    using Cons.prems(1)
  proof (rule settle_payments_Cons)
    fix st1 :: run_state
    assume "settle_payments env logId sid stmtId rows st1 = Inr st'"
      and "payments (conn st1) = payments (snd (update_claim stmtId (row_id p) (conn st)))"
    then show ?thesis by (intro exI conjI)
  qed
  then obtain st1 where
    rest: "settle_payments env logId sid stmtId rows st1 = Inr st'"
    and pay: "payments (conn st1) = payments (snd (update_claim stmtId (row_id p) (conn st)))"
    by (elim exE conjE)
  have ne: "i \<noteq> row_id p" and notin: "i \<notin> row_id ` set rows" using Cons.prems(2) by auto
  have "filter (\<lambda>q. pay_id q = i) (payments (conn st')) =
        filter (\<lambda>q. pay_id q = i) (payments (conn st1))"
    using Cons.IH[OF rest notin] .
  also have "\<dots> = filter (\<lambda>q. pay_id q = i) (payments (conn st))"
    unfolding pay update_claim_tables using ne by (rule filter_claim_row_other)
  finally show ?case .
qed

lemma settle_stores_untouched:
  assumes "settle_stores env logId ps pe groups st = Inr st'"
    and "\<forall>g \<in> set groups. 0 < reduce_amount_total (snd g) \<longrightarrow> i \<notin> row_id ` set (snd g)"
  shows "filter (\<lambda>q. pay_id q = i) (payments (conn st')) =
         filter (\<lambda>q. pay_id q = i) (payments (conn st))"
  using assms
proof (induction groups arbitrary: st)
  case Nil
  then show ?case by simp
next
  case (Cons g groups)
  obtain sid rows where g: "g = (sid, rows)" by (cases g)
  from settle_stores_step[OF Cons.prems(1)[unfolded g]] obtain st2 where
    rest: "settle_stores env logId ps pe groups st2 = Inr st'"
    and step: "if reduce_amount_total rows \<le> 0 then payments (conn st2) = payments (conn st)
     else \<exists>stmtId st1 stx. payments (conn st1) = payments (conn st) \<and>
          settle_payments env logId sid stmtId rows st1 = Inr stx \<and>
          payments (conn st2) = payments (conn stx)"
    by (elim exE conjE)
  have tail: "\<forall>g \<in> set groups. 0 < reduce_amount_total (snd g) \<longrightarrow> i \<notin> row_id ` set (snd g)"
    using Cons.prems(2) by simp
  have "filter (\<lambda>q. pay_id q = i) (payments (conn st2)) =
        filter (\<lambda>q. pay_id q = i) (payments (conn st))"
  proof (cases "reduce_amount_total rows \<le> 0")
    case True
    then show ?thesis using step by simp
  next
    case False
    then obtain stmtId st1 stx where
      a: "payments (conn st1) = payments (conn st)"
      and b: "settle_payments env logId sid stmtId rows st1 = Inr stx"
      and c: "payments (conn st2) = payments (conn stx)"
      using step by (auto simp: not_le)
    have "i \<notin> row_id ` set rows" using Cons.prems(2) False g by auto
    from settle_payments_untouched[OF b this] show ?thesis using a c by simp
  qed
  then show ?case using Cons.IH[OF rest tail] by simp
qed

text \<open>The counters over the whole loop.\<close>

lemma settle_stores_counts:
  assumes "settle_stores env logId ps pe groups st = Inr st'"
  shows "successPaymentCount st' + skippedPaymentCount st' =
           successPaymentCount st + skippedPaymentCount st +
           sum_list (map (\<lambda>e. length (snd e)) groups) \<and>
         successPaymentCount st' \<le> successPaymentCount st +
           sum_list (map (\<lambda>e. if 0 < reduce_amount_total (snd e) then length (snd e) else 0)
             groups)"
  using assms
proof (induction groups arbitrary: st)
  case Nil
  then show ?case by simp
next
  case (Cons g groups)
  obtain sid rows where g: "g = (sid, rows)" by (cases g)
  show ?case
  proof (cases "reduce_amount_total rows \<le> 0")
    case True
    have "settle_stores env logId ps pe groups
            (st\<lparr>skippedPaymentCount := skippedPaymentCount st + length rows\<rparr>) = Inr st'"
      using Cons.prems g True by simp
    from Cons.IH[OF this] show ?thesis using g True by simp
  next
    case False
    then have pos: "0 < reduce_amount_total rows" by simp
    from Cons.prems[unfolded g] pos show ?thesis
    proof (rule settle_stores_Cons)
      fix stmtId :: nat and st2 :: run_state
      let ?st1 = "st\<lparr>conn := snd (insert_statement env sid ps pe (reduce_amount_total rows)
                          (floor_times_rate (reduce_amount_total rows))
                          (js_sub (reduce_amount_total rows)
                             (floor_times_rate (reduce_amount_total rows)))
                          (length rows) (conn st)),
             totalCommission :=
               js_add (totalCommission st) (floor_times_rate (reduce_amount_total rows)),
             totalPayout :=
               js_add (totalPayout st)
                 (js_sub (reduce_amount_total rows)
                    (floor_times_rate (reduce_amount_total rows)))\<rparr>"
      let ?st3 = "st2\<lparr>settlementsResult := settlementsResult st2 @
            [\<lparr>storeId = sid, statementId = Some stmtId,
              totalSales = reduce_amount_total rows,
              commissionAmount = floor_times_rate (reduce_amount_total rows),
              payoutAmount = js_sub (reduce_amount_total rows)
                               (floor_times_rate (reduce_amount_total rows)),
              paymentsCount = length rows\<rparr>]\<rparr>"
      assume sp: "settle_payments env logId sid stmtId rows ?st1 = Inr st2"
        and rest: "settle_stores env logId ps pe groups ?st3 = Inr st'"
      have a: "successPaymentCount st2 + skippedPaymentCount st2 =
               successPaymentCount st + skippedPaymentCount st + length rows"
        and b: "skippedPaymentCount st \<le> skippedPaymentCount st2"
        using settle_payments_Inr[OF sp] by simp_all
      from Cons.IH[OF rest] a b show ?thesis using g pos by simp
    qed
  qed
qed

lemma distinct_filter_same_key:
  assumes "distinct (map f xs)" "x \<in> set xs"
  shows "filter (\<lambda>y. f y = f x) xs = [x]"
  using assms
proof (induction xs)
  case Nil
  then show ?case by simp
next
  case (Cons a xs)
  show ?case
  proof (cases "x = a")
    case True
    have "f a \<notin> f ` set xs" using Cons.prems(1) by simp
    then have "\<forall>y \<in> set xs. f y \<noteq> f a" by (metis imageI)
    then have "filter (\<lambda>y. f y = f a) xs = []" by (simp add: filter_empty_conv)
    then show ?thesis using True by simp
  next
    case False
    then have x: "x \<in> set xs" using Cons.prems(2) by simp
    then have "f a \<noteq> f x" using Cons.prems(1) by auto
    then show ?thesis using Cons.IH x Cons.prems(1) by simp
  qed
qed

text \<open>
  Claim C8. In a run that settles (not a dry run) and commits, take a store among the
  selected payments whose total, as the run computes it, is not positive. Then no
  aggregate and no statement for that store is created; each of its payments is, after
  the run, exactly as the run found it once the locking read was done (so still
  \<open>is_settled = 0\<close> unless another settlement claimed it meanwhile); and all of them are
  counted as skipped: the successes are at most the payments of stores with a positive
  total, successes and skips add up to the number of selected payments, so the skip
  counter holds at least the payments of this store.
\<close>

theorem nonpositive_store_is_skipped:
  assumes run: "runSettlementPeriod env (Some ps) (Some pe) False d =
      (Inr (ReportSuccess n k succeeded skipped payout commission settlements), d')"
    and ids: "distinct (map pay_id (payments d))"
    and member: "sid \<in> row_store_id ` set (select_payments ps pe d)"
    and nonpos: "store_total (select_payments ps pe d) sid \<le> 0"
  shows "sid \<notin> storeId ` set settlements \<and>
    (\<forall>s \<in> set (settlement_statements d').
        stmt_store_id s = sid \<longrightarrow> s \<in> set (settlement_statements d)) \<and>
    (\<forall>p \<in> set (payments d). eligible ps pe p \<and> store_id p = sid \<longrightarrow>
        filter (\<lambda>q. pay_id q = pay_id p) (payments d') =
          filter (\<lambda>q. pay_id q = pay_id p) (payments (concurrent_settlement env d)) \<and>
        (concurrently_settled env (pay_id p) = None \<longrightarrow>
           filter (\<lambda>q. pay_id q = pay_id p) (payments d') = [p] \<and> \<not> is_settled p)) \<and>
    n = length (select_payments ps pe d) \<and>
    succeeded + skipped = n \<and>
    succeeded \<le> length (filter (\<lambda>r. 0 < store_total (select_payments ps pe d) (row_store_id r))
                          (select_payments ps pe d)) \<and>
    length (filter (\<lambda>r. row_store_id r = sid) (select_payments ps pe d)) \<le> skipped"
proof -
  let ?rows = "select_payments ps pe d"
  let ?logId = "fresh_id (map log_id (settlement_logs d))"
  let ?group = "filter (\<lambda>r. row_store_id r = sid) ?rows"
  let ?Q = "\<lambda>r. 0 < store_total ?rows (row_store_id r)"
  let ?st0 = "initial_state (concurrent_settlement env (insert_log env ?logId ps pe d))"
  from runSettlementPeriod_Inr[OF run] have pre: "ps < pe" "query_error env LogInsert = None"
    "query_error env SelectPayments = None" by simp_all
  have ne: "?rows \<noteq> []" using member by auto
  have mut: "run_mutating env ?logId ps pe ?rows (insert_log env ?logId ps pe d) d =
      (Inr (ReportSuccess n k succeeded skipped payout commission settlements), d')"
    using run unfolding runSettlementPeriod_unfold[OF pre, of d] using ne by simp
  have no_pos: "\<not> 0 < reduce_amount_total v" if "(sid, v) \<in> set (storeMap ?rows)" for v
    using storeMap_entry_total[OF that] nonpos by simp
  from mut show ?thesis
  proof (rule run_mutating_Inr)
    fix st
    assume loop: "settle_stores env ?logId ps pe (storeMap ?rows) ?st0 = Inr st"
      and rep: "ReportSuccess n k succeeded skipped payout commission settlements =
         ReportSuccess (length ?rows) (length (settlementsResult st))
           (successPaymentCount st) (skippedPaymentCount st)
           (totalPayout st) (totalCommission st) (settlementsResult st)"
      and pay: "payments d' = payments (conn st)"
      and stm: "settlement_statements d' = settlement_statements (conn st)"
    have n: "n = length ?rows" and succ: "succeeded = successPaymentCount st"
      and skip: "skipped = skippedPaymentCount st" and setts: "settlements = settlementsResult st"
      using rep by simp_all
    have a: "sid \<notin> storeId ` set settlements"
    proof
      assume "sid \<in> storeId ` set settlements"
      then obtain s where s: "s \<in> set (settlementsResult st)" "storeId s = sid"
        using setts by auto
      have "map without_statementId (settlementsResult st) = simulate_stores (storeMap ?rows)"
        using settle_stores_aggregates[OF loop] by (simp add: initial_state_def)
      then have "without_statementId s \<in> set (simulate_stores (storeMap ?rows))"
        using s(1) by (metis image_eqI set_map)
      from simulate_stores_keys[OF this] s(2) no_pos show False
        by (auto simp: without_statementId_def)
    qed
    have b: "\<forall>s \<in> set (settlement_statements d').
        stmt_store_id s = sid \<longrightarrow> s \<in> set (settlement_statements d)"
    proof (intro ballI impI)
      fix s assume s: "s \<in> set (settlement_statements d')" "stmt_store_id s = sid"
      from settle_stores_statements[OF loop] s(1) stm
      have "s \<in> set (settlement_statements (conn ?st0)) \<or>
         (\<exists>v. (stmt_store_id s, v) \<in> set (storeMap ?rows) \<and> 0 < reduce_amount_total v)"
        by simp
      then have "s \<in> set (settlement_statements (conn ?st0))"
        using s(2) no_pos by auto
      then show "s \<in> set (settlement_statements d)" by (simp add: initial_state_def)
    qed
    have c0: "filter (\<lambda>q. pay_id q = pay_id p) (payments d') =
          filter (\<lambda>q. pay_id q = pay_id p) (payments (concurrent_settlement env d)) \<and>
        (concurrently_settled env (pay_id p) = None \<longrightarrow>
           filter (\<lambda>q. pay_id q = pay_id p) (payments d') = [p] \<and> \<not> is_settled p)"
      if p: "p \<in> set (payments d)" "eligible ps pe p" "store_id p = sid" for p
    proof -
      have inj: "inj_on pay_id (set (payments d))" using ids by (simp add: distinct_map)
      have clear: "\<forall>g \<in> set (storeMap ?rows). 0 < reduce_amount_total (snd g) \<longrightarrow>
          pay_id p \<notin> row_id ` set (snd g)"
      proof (intro ballI impI notI)
        fix g assume g: "g \<in> set (storeMap ?rows)" "0 < reduce_amount_total (snd g)"
          and "pay_id p \<in> row_id ` set (snd g)"
        then obtain r where r: "r \<in> set (snd g)" "row_id r = pay_id p" by auto
        obtain kk v where kv: "g = (kk, v)" by (cases g)
        have entry: "(kk, v) \<in> set (storeMap ?rows)" using g(1) kv by simp
        have rv: "r \<in> set v" using r(1) kv by simp
        from storeMap_entry_store[OF entry rv] have rk: "row_store_id r = kk" and rr: "r \<in> set ?rows"
          by simp_all
        from rr obtain q where q: "q \<in> set (payments d)" "r = to_row q"
          by (auto simp: select_payments_row)
        have "pay_id q = pay_id p" using q(2) r(2) by (simp add: to_row_def)
        then have "q = p" using inj q(1) p(1) by (auto dest: inj_onD)
        then have "kk = sid" using rk q(2) p(3) by (simp add: to_row_def)
        then show False using no_pos entry g(2) kv by simp
      qed
      have one: "filter (\<lambda>q. pay_id q = pay_id p) (payments d') =
          filter (\<lambda>q. pay_id q = pay_id p) (payments (concurrent_settlement env d))"
        using settle_stores_untouched[OF loop clear] pay
        by (simp add: initial_state_def concurrent_settlement_def)
      have two: "filter (\<lambda>q. pay_id q = pay_id p) (payments d') = [p] \<and> \<not> is_settled p"
        if "concurrently_settled env (pay_id p) = None"
      proof -
        have "filter (\<lambda>q. pay_id q = pay_id p) (payments (concurrent_settlement env d)) =
              filter (\<lambda>q. pay_id q = pay_id p) (payments d)"
          unfolding concurrent_settlement_def using filter_concurrent_row_other[OF that] by simp
        also have "\<dots> = [p]" using ids p(1) by (rule distinct_filter_same_key)
        finally show ?thesis using one p(2) by (simp add: eligible_def)
      qed
      show ?thesis using one two by simp
    qed
    have c: "\<forall>p \<in> set (payments d). eligible ps pe p \<and> store_id p = sid \<longrightarrow>
        filter (\<lambda>q. pay_id q = pay_id p) (payments d') =
          filter (\<lambda>q. pay_id q = pay_id p) (payments (concurrent_settlement env d)) \<and>
        (concurrently_settled env (pay_id p) = None \<longrightarrow>
           filter (\<lambda>q. pay_id q = pay_id p) (payments d') = [p] \<and> \<not> is_settled p)"
      using c0 by blast
    from settle_stores_counts[OF loop]
    have sum: "succeeded + skipped = length ?rows"
      and le: "succeeded \<le> length (filter ?Q ?rows)"
      using succ skip by (simp_all add: initial_state_def storeMap_sizes storeMap_positive_sizes)
    have "?group = filter (\<lambda>r. row_store_id r = sid) (filter (\<lambda>r. \<not> ?Q r) ?rows)"
      unfolding filter_filter using nonpos by (intro filter_cong refl) auto
    then have "length ?group \<le> length (filter (\<lambda>r. \<not> ?Q r) ?rows)"
      by (metis length_filter_le)
    moreover have "length (filter ?Q ?rows) + length (filter (\<lambda>r. \<not> ?Q r) ?rows) = length ?rows"
      by (rule sum_length_filter_compl)
    ultimately have grp: "length ?group \<le> skipped" using sum le by linarith
    have sum': "succeeded + skipped = n" using sum n by simp
    show ?thesis by (intro conjI) (fact a b c n sum' le grp)+
  qed
qed

theorem nonpositive_store_is_skipped_witness:
  "fst (runSettlementPeriod quiet_env (Some 0) (Some 100) False two_store_db) =
     Inr (ReportSuccess 3 1 2 1 32000 8000
        [\<lparr>storeId = ''M'', statementId = Some 1, totalSales = 40000,
          commissionAmount = 8000, payoutAmount = 32000, paymentsCount = 2\<rparr>]) \<and>
   distinct (map pay_id (payments two_store_db)) \<and>
   ''Z'' \<in> row_store_id ` set (select_payments 0 100 two_store_db) \<and>
   store_total (select_payments 0 100 two_store_db) ''Z'' = 0 \<and>
   ''Z'' \<notin> stmt_store_id ` set (settlement_statements
        (snd (runSettlementPeriod quiet_env (Some 0) (Some 100) False two_store_db))) \<and>
   filter (\<lambda>q. pay_id q = 7)
     (payments (snd (runSettlementPeriod quiet_env (Some 0) (Some 100) False two_store_db))) =
     [example_payment 7 ''Z'' 0 10 SUCCESS]"
proof -
  let ?run = "runSettlementPeriod quiet_env (Some 0) (Some 100) False two_store_db"
  have rep: "fst ?run = Inr (ReportSuccess 3 1 2 1 32000 8000
        [\<lparr>storeId = ''M'', statementId = Some 1, totalSales = 40000,
          commissionAmount = 8000, payoutAmount = 32000, paymentsCount = 2\<rparr>])"
    by (simp add: runSettlementPeriod_def run_mutating_def initial_state_def
      quiet_env_def two_store_db_def example_ledger_def
      example_payment_def select_payments_def eligible_def to_row_def storeMap_def
      reduce_amount_total_def insert_log_def update_log_def fresh_id_def
      concurrent_settlement_def concurrent_row_def
      insert_statement_def update_claim_def claim_row_def claim_matches_def
      js_add_def js_sub_def round53_def floor_times_rate_def
      PLATFORM_COMMISSION_RATE_significand_def Let_def)
  have run: "?run = (Inr (ReportSuccess 3 1 2 1 32000 8000
        [\<lparr>storeId = ''M'', statementId = Some 1, totalSales = 40000,
          commissionAmount = 8000, payoutAmount = 32000, paymentsCount = 2\<rparr>]), snd ?run)"
    using rep by (metis prod.collapse)
  have ids: "distinct (map pay_id (payments two_store_db))"
    by (simp add: two_store_db_def example_ledger_def example_payment_def)
  have sel: "select_payments 0 100 two_store_db =
      [to_row (example_payment 1 ''M'' 15000 10 SUCCESS),
       to_row (example_payment 2 ''M'' 25000 20 SUCCESS),
       to_row (example_payment 7 ''Z'' 0 10 SUCCESS)]"
    by (simp add: two_store_db_def example_ledger_def example_payment_def
        select_payments_def eligible_def to_row_def)
  have member: "''Z'' \<in> row_store_id ` set (select_payments 0 100 two_store_db)"
    unfolding sel by (simp add: to_row_def example_payment_def)
  have total: "store_total (select_payments 0 100 two_store_db) ''Z'' = 0"
    unfolding sel
    by (simp add: store_total_def reduce_amount_total_def to_row_def example_payment_def
        js_add_def round53_def Let_def)
  then have nonpos: "store_total (select_payments 0 100 two_store_db) ''Z'' \<le> 0" by simp
  have p: "example_payment 7 ''Z'' 0 10 SUCCESS \<in> set (payments two_store_db)"
    "eligible 0 100 (example_payment 7 ''Z'' 0 10 SUCCESS)"
    "store_id (example_payment 7 ''Z'' 0 10 SUCCESS) = ''Z''"
    "concurrently_settled quiet_env (pay_id (example_payment 7 ''Z'' 0 10 SUCCESS)) = None"
    "pay_id (example_payment 7 ''Z'' 0 10 SUCCESS) = 7"
    by (simp_all add: two_store_db_def example_ledger_def example_payment_def eligible_def
        quiet_env_def)
  have old: "settlement_statements two_store_db = []"
    by (simp add: two_store_db_def example_ledger_def)
  from nonpositive_store_is_skipped[OF run ids member nonpos]
  have stm: "\<forall>s \<in> set (settlement_statements (snd ?run)).
        stmt_store_id s = ''Z'' \<longrightarrow> s \<in> set (settlement_statements two_store_db)"
    and frame: "\<forall>p \<in> set (payments two_store_db). eligible 0 100 p \<and> store_id p = ''Z'' \<longrightarrow>
        (concurrently_settled quiet_env (pay_id p) = None \<longrightarrow>
           filter (\<lambda>q. pay_id q = pay_id p) (payments (snd ?run)) = [p] \<and> \<not> is_settled p)"
    by blast+
  have "''Z'' \<notin> stmt_store_id ` set (settlement_statements (snd ?run))"
    using stm old by auto
  moreover have "filter (\<lambda>q. pay_id q = 7) (payments (snd ?run)) =
      [example_payment 7 ''Z'' 0 10 SUCCESS]"
  proof -
    from frame p(1,2,3,4)
    have "filter (\<lambda>q. pay_id q = pay_id (example_payment 7 ''Z'' 0 10 SUCCESS))
            (payments (snd ?run)) = [example_payment 7 ''Z'' 0 10 SUCCESS]"
      by blast
    then show ?thesis by (simp only: p(5))
  qed
  ultimately show ?thesis using rep ids member total by simp
qed

section \<open>The items of a statement\<close>

















section \<open>The aggregates of a report\<close>

lemma simulate_stores_entry:
  assumes "s \<in> set (simulate_stores groups)"
  shows "\<exists>v. (storeId s, v) \<in> set groups \<and> 0 < reduce_amount_total v \<and>
           totalSales s = reduce_amount_total v \<and>
           commissionAmount s = floor_times_rate (reduce_amount_total v) \<and>
           payoutAmount s =
             js_sub (reduce_amount_total v) (floor_times_rate (reduce_amount_total v)) \<and>
           paymentsCount s = length v"
  using assms
proof (induction groups)
  case Nil
  then show ?case by simp
next
  case (Cons g groups)
  obtain sid rows where g: "g = (sid, rows)" by (cases g)
  show ?case
  proof (cases "reduce_amount_total rows \<le> 0")
    case True
    then have "s \<in> set (simulate_stores groups)" using Cons.prems g by simp
    from Cons.IH[OF this] show ?thesis by auto
  next
    case False
    let ?new = "\<lparr>storeId = sid, statementId = None, totalSales = reduce_amount_total rows,
        commissionAmount = floor_times_rate (reduce_amount_total rows),
        payoutAmount = js_sub (reduce_amount_total rows)
                         (floor_times_rate (reduce_amount_total rows)),
        paymentsCount = length rows\<rparr>"
    have "s = ?new \<or> s \<in> set (simulate_stores groups)"
      using Cons.prems g False by (simp add: Let_def)
    then show ?thesis
    proof
      assume "s = ?new"
      then show ?thesis using False g by (intro exI[of _ rows]) simp
    next
      assume "s \<in> set (simulate_stores groups)"
      from Cons.IH[OF this] show ?thesis by auto
    qed
  qed
qed

lemma simulate_stores_no_statementId:
  "map without_statementId (simulate_stores groups) = simulate_stores groups"
proof (induction groups)
  case Nil
  show ?case by simp
next
  case (Cons g groups)
  obtain sid rows where g: "g = (sid, rows)" by (cases g)
  show ?case using Cons.IH g by (simp add: Let_def without_statementId_def)
qed

text \<open>The dry run, once the window is valid and the first two queries pass.\<close>

lemma runSettlementPeriod_dry_unfold:
  assumes "ps < pe" "query_error env LogInsert = None" "query_error env SelectPayments = None"
    and "select_payments ps pe d \<noteq> []"
  shows "runSettlementPeriod env (Some ps) (Some pe) True d =
     (case query_error env LogDryRunUpdate of
        Some m \<Rightarrow>
          run_failed env (fresh_id (map log_id (settlement_logs d))) (DbError m)
            (insert_log env (fresh_id (map log_id (settlement_logs d))) ps pe d) d
      | None \<Rightarrow>
          (Inr (ReportDryRun (length (select_payments ps pe d))
                  (fst (simulateSettlement (select_payments ps pe d)))
                  (snd (simulateSettlement (select_payments ps pe d)))),
           update_log (fresh_id (map log_id (settlement_logs d)))
             (\<lambda>l. l\<lparr>ended_at := Some (clock_ended env), log_status := ''success'',
                     log_message := MsgDryRunDone,
                     total_payments := length (select_payments ps pe d),
                     total_statements := fst (simulateSettlement (select_payments ps pe d))\<rparr>)
             (insert_log env (fresh_id (map log_id (settlement_logs d))) ps pe d)))"
  using assms
  by (simp add: runSettlementPeriod_def Let_def split_beta split: option.splits)

text \<open>
  Whichever path returns the report, its aggregates are those of the simulation on the
  selected payments, up to the identifier of the statement.
\<close>

lemma report_settlements_simulated:
  assumes run: "runSettlementPeriod env (Some ps) (Some pe) dryRun d = (Inr rep, d')"
  shows "map without_statementId (report_settlements rep) =
         simulate_stores (storeMap (select_payments ps pe d))"
proof -
  let ?rows = "select_payments ps pe d"
  let ?logId = "fresh_id (map log_id (settlement_logs d))"
  from runSettlementPeriod_Inr[OF run] have pre: "ps < pe" "query_error env LogInsert = None"
    "query_error env SelectPayments = None" by simp_all
  show ?thesis
  proof (cases "?rows = []")
    case True
    have "rep = ReportNoop"
      using run pre True
      by (cases "query_error env LogNoopUpdate")
         (simp_all add: runSettlementPeriod_def run_failed_def Let_def)
    then show ?thesis using True by simp
  next
    case False
    show ?thesis
    proof (cases dryRun)
      case True
      have run': "runSettlementPeriod env (Some ps) (Some pe) True d = (Inr rep, d')"
        using run True by simp
      have "rep = ReportDryRun (length ?rows) (fst (simulateSettlement ?rows))
                    (snd (simulateSettlement ?rows))"
        using run' unfolding runSettlementPeriod_dry_unfold[OF pre False]
        by (cases "query_error env LogDryRunUpdate") (simp_all add: run_failed_def)
      then show ?thesis
        by (simp add: simulateSettlement_def Let_def simulate_stores_no_statementId)
    next
      case no: False
      have run': "runSettlementPeriod env (Some ps) (Some pe) False d = (Inr rep, d')"
        using run no by simp
      have mut: "run_mutating env ?logId ps pe ?rows (insert_log env ?logId ps pe d) d = (Inr rep, d')"
        using run' unfolding runSettlementPeriod_unfold[OF pre, of d] using False by simp
      from mut show ?thesis
      proof (rule run_mutating_Inr)
        fix st
        assume loop: "settle_stores env ?logId ps pe (storeMap ?rows)
            (initial_state (concurrent_settlement env (insert_log env ?logId ps pe d))) = Inr st"
          and rep: "rep = ReportSuccess (length ?rows) (length (settlementsResult st))
             (successPaymentCount st) (skippedPaymentCount st)
             (totalPayout st) (totalCommission st) (settlementsResult st)"
        show ?thesis
          using settle_stores_aggregates[OF loop] rep by (simp add: initial_state_def)
      qed
    qed
  qed
qed

text \<open>
  Claim C3, amended. Amounts are not negative. Every aggregate of a returned report, of
  a dry run or of a settling run, whose store has payments in the window adding up to
  less than \<open>2^52\<close> (a statement's \<open>total_sales INT UNSIGNED\<close> holds less than \<open>2^32\<close>)
  has as \<open>totalSales\<close> the exact sum of the amounts of its store, which is positive, as
  \<open>commissionAmount\<close> the floor of the exact product of that sum with \<open>0.2\<close>, as
  \<open>payoutAmount\<close> the difference, and commission and payout add up to the total.
\<close>

theorem aggregates_are_exact_below_2_52:
  assumes run: "runSettlementPeriod env (Some ps) (Some pe) dryRun d = (Inr rep, d')"
    and amounts: "\<forall>p \<in> set (payments d). 0 \<le> amount_total p"
    and s: "s \<in> set (report_settlements rep)"
    and bound: "sum_list (map row_amount_total
        (filter (\<lambda>r. row_store_id r = storeId s) (select_payments ps pe d))) < 2 ^ 52"
  shows "totalSales s =
           sum_list (map row_amount_total
             (filter (\<lambda>r. row_store_id r = storeId s) (select_payments ps pe d))) \<and>
         0 < totalSales s \<and>
         commissionAmount s = \<lfloor>real_of_int (totalSales s) * 0.2\<rfloor> \<and>
         payoutAmount s = totalSales s - commissionAmount s \<and>
         commissionAmount s + payoutAmount s = totalSales s"
proof -
  let ?rows = "select_payments ps pe d"
  let ?v = "filter (\<lambda>r. row_store_id r = storeId s) ?rows"
  have "without_statementId s \<in> set (map without_statementId (report_settlements rep))"
    using s by simp
  then have "without_statementId s \<in> set (simulate_stores (storeMap ?rows))"
    unfolding report_settlements_simulated[OF run] .
  from simulate_stores_entry[OF this] obtain v where
    entry: "(storeId s, v) \<in> set (storeMap ?rows)"
    and pos: "0 < reduce_amount_total v"
    and total: "totalSales s = reduce_amount_total v"
    and comm: "commissionAmount s = floor_times_rate (reduce_amount_total v)"
    and pay: "payoutAmount s =
      js_sub (reduce_amount_total v) (floor_times_rate (reduce_amount_total v))"
    by (auto simp: without_statementId_def)
  have v: "v = ?v" using storeMap_entry(1)[OF entry] .
  have nonneg: "\<forall>r \<in> set ?rows. 0 \<le> row_amount_total r"
    using amounts by (auto simp: select_payments_row to_row_def)
  then have nonneg_v: "\<forall>r \<in> set ?v. 0 \<le> row_amount_total r" by simp
  have small: "sum_list (map row_amount_total ?v) < 2 ^ 52" using bound .
  then have "sum_list (map row_amount_total ?v) < 2 ^ 53" by simp
  from reduce_amount_total_exact[OF nonneg_v this]
  have exact: "reduce_amount_total ?v = sum_list (map row_amount_total ?v)" .
  define t where "t = sum_list (map row_amount_total ?v)"
  have t: "totalSales s = t" using total exact v t_def by simp
  have t0: "0 < t" using pos exact v t_def by simp
  have t52: "t < 2 ^ 52" using small t_def by simp
  have c: "commissionAmount s = t div 5"
    using comm exact v t_def floor_times_rate_exact[of t] t0 t52 by simp
  have "\<bar>t - t div 5\<bar> < 2 ^ 53" using t0 t52 by simp
  then have p: "payoutAmount s = t - t div 5"
    using pay exact v t_def floor_times_rate_exact[of t] t0 t52 by (simp add: js_sub_exact)
  show ?thesis
    using t t0 c p unfolding floor_fifth t_def by simp
qed

theorem aggregates_are_exact_below_2_52_witness:
  "fst (runSettlementPeriod quiet_env (Some 0) (Some 100) False example_db) =
     Inr (ReportSuccess 2 1 2 0 32000 8000
        [\<lparr>storeId = ''M'', statementId = Some 1, totalSales = 40000,
          commissionAmount = 8000, payoutAmount = 32000, paymentsCount = 2\<rparr>]) \<and>
   map amount_total (payments example_db) = [15000, 25000] \<and>
   sum_list (map row_amount_total
     (filter (\<lambda>r. row_store_id r = ''M'') (select_payments 0 100 example_db))) = 40000 \<and>
   (40000::int) < 2 ^ 52 \<and>
   \<lfloor>real_of_int 40000 * 0.2\<rfloor> = (8000::int) \<and> (8000::int) + 32000 = 40000"
proof -
  let ?run = "runSettlementPeriod quiet_env (Some 0) (Some 100) False example_db"
  let ?s = "\<lparr>storeId = ''M'', statementId = Some 1, totalSales = 40000,
          commissionAmount = 8000, payoutAmount = 32000, paymentsCount = 2\<rparr>"
  have rep: "fst ?run = Inr (ReportSuccess 2 1 2 0 32000 8000 [?s])"
    by (simp add: runSettlementPeriod_def run_mutating_def initial_state_def
      quiet_env_def example_db_def example_ledger_def
      example_payment_def select_payments_def eligible_def to_row_def storeMap_def
      reduce_amount_total_def insert_log_def update_log_def fresh_id_def
      concurrent_settlement_def concurrent_row_def
      insert_statement_def update_claim_def claim_row_def claim_matches_def
      js_add_def js_sub_def round53_def floor_times_rate_def
      PLATFORM_COMMISSION_RATE_significand_def Let_def)
  have run: "?run = (Inr (ReportSuccess 2 1 2 0 32000 8000 [?s]), snd ?run)"
    using rep by (metis prod.collapse)
  have amounts: "\<forall>p \<in> set (payments example_db). 0 \<le> amount_total p"
    by (simp add: example_db_def example_ledger_def example_payment_def)
  have total: "sum_list (map row_amount_total
      (filter (\<lambda>r. row_store_id r = ''M'') (select_payments 0 100 example_db))) = 40000"
    by (simp add: example_db_def example_ledger_def example_payment_def
        select_payments_def eligible_def to_row_def)
  then have bound: "sum_list (map row_amount_total
      (filter (\<lambda>r. row_store_id r = storeId ?s) (select_payments 0 100 example_db))) < 2 ^ 52"
    by simp
  have mem: "?s \<in> set (report_settlements (ReportSuccess 2 1 2 0 32000 8000 [?s]))" by simp
  from aggregates_are_exact_below_2_52[OF run amounts mem bound]
  have "commissionAmount ?s = \<lfloor>real_of_int (totalSales ?s) * 0.2\<rfloor>"
    and "commissionAmount ?s + payoutAmount ?s = totalSales ?s"
    by blast+
  moreover have "map amount_total (payments example_db) = [15000, 25000]"
    by (simp add: example_db_def example_ledger_def example_payment_def)
  ultimately show ?thesis using rep total by simp
qed

section \<open>A total beyond the exact range of the product\<close>

lemma storeMap_single_store:
  assumes "\<forall>r \<in> set rows. row_store_id r = k" "rows \<noteq> []"
  shows "storeMap rows = [(k, rows)]"
  using assms
proof (induction rows rule: rev_induct)
  case Nil
  then show ?case by simp
next
  case (snoc p ps)
  have pk: "row_store_id p = k" using snoc.prems(1) by simp
  show ?case
  proof (cases "ps = []")
    case True
    then show ?thesis using pk by (simp add: storeMap_def)
  next
    case False
    then have "storeMap ps = [(k, ps)]" using snoc.IH snoc.prems(1) by simp
    then show ?thesis using pk by (simp add: storeMap_snoc)
  qed
qed

lemma sorted_map_same_key:
  fixes f :: "'a \<Rightarrow> 'b::linorder"
  assumes "\<forall>x \<in> set xs. f x = c"
  shows "sorted (map f xs)"
  using assms by (induction xs) auto

lemma many_payments_facts:
  "length (many_payments n) = n"
  "\<forall>p \<in> set (many_payments n). eligible 0 100 p \<and> store_id p = ''M'' \<and>
      amount_total p = 4000000000 \<and> paid_at p = Some 10"
  "sum_list (map amount_total (many_payments n)) = int n * 4000000000"
proof -
  show "length (many_payments n) = n" by (simp add: many_payments_def)
  show "\<forall>p \<in> set (many_payments n). eligible 0 100 p \<and> store_id p = ''M'' \<and>
      amount_total p = 4000000000 \<and> paid_at p = Some 10"
    by (auto simp: many_payments_def example_payment_def eligible_def)
  have "map amount_total (many_payments n) = map (\<lambda>i. 4000000000) [0..<n]"
    by (simp add: many_payments_def example_payment_def)
  then show "sum_list (map amount_total (many_payments n)) = int n * 4000000000"
    by (simp add: sum_list_triv)
qed

lemma big_db_payments:
  "payments big_db = many_payments 1750000 @ [example_payment 1750000 ''M'' 4 10 SUCCESS]"
  by (simp add: big_db_def example_ledger_def)

lemma big_db_rows:
  "\<forall>p \<in> set (payments big_db). eligible 0 100 p \<and> store_id p = ''M'' \<and>
      0 \<le> amount_total p \<and> amount_total p < 2 ^ 32 \<and> paid_at p = Some 10"
proof -
  have "eligible 0 100 (example_payment 1750000 ''M'' 4 10 SUCCESS)"
    by (simp add: example_payment_def eligible_def)
  moreover have "store_id (example_payment 1750000 ''M'' 4 10 SUCCESS) = ''M''"
    "amount_total (example_payment 1750000 ''M'' 4 10 SUCCESS) = 4"
    "paid_at (example_payment 1750000 ''M'' 4 10 SUCCESS) = Some 10"
    by (simp_all add: example_payment_def)
  ultimately show ?thesis
    unfolding big_db_payments using many_payments_facts(2)[of 1750000] by auto
qed

lemma big_db_select:
  "select_payments 0 100 big_db = map to_row (payments big_db)"
proof -
  have all: "filter (eligible 0 100) (payments big_db) = payments big_db"
    using big_db_rows by (simp add: filter_id_conv)
  have "\<forall>r \<in> set (map to_row (payments big_db)).
          (row_store_id r, row_paid_at r) = (''M'', 10)"
    using big_db_rows by (auto simp: to_row_def)
  then have "sorted (map (\<lambda>r. (row_store_id r, row_paid_at r)) (map to_row (payments big_db)))"
    by (rule sorted_map_same_key)
  then have "sort_key (\<lambda>r. (row_store_id r, row_paid_at r)) (map to_row (payments big_db)) =
      map to_row (payments big_db)"
    by (rule sort_key_id_if_sorted)
  then show ?thesis unfolding select_payments_def all .
qed

lemma big_db_total:
  "reduce_amount_total (select_payments 0 100 big_db) = 7000000000000004"
  "length (select_payments 0 100 big_db) = 1750001"
  "storeMap (select_payments 0 100 big_db) = [(''M'', select_payments 0 100 big_db)]"
proof -
  let ?rows = "select_payments 0 100 big_db"
  have amounts: "map row_amount_total ?rows = map amount_total (payments big_db)"
    unfolding big_db_select by (simp add: to_row_def)
  have sum: "sum_list (map row_amount_total ?rows) = 7000000000000004"
    unfolding amounts big_db_payments
    using many_payments_facts(3)[of 1750000] by (simp add: example_payment_def)
  have nonneg: "\<forall>r \<in> set ?rows. 0 \<le> row_amount_total r"
    unfolding big_db_select using big_db_rows by (auto simp: to_row_def)
  have "sum_list (map row_amount_total ?rows) < 2 ^ 53" unfolding sum by simp
  from reduce_amount_total_exact[OF nonneg this] sum
  show "reduce_amount_total ?rows = 7000000000000004" by simp
  show len: "length ?rows = 1750001"
    unfolding big_db_select big_db_payments
    using many_payments_facts(1)[of 1750000] by simp
  have "\<forall>r \<in> set ?rows. row_store_id r = ''M''"
    unfolding big_db_select using big_db_rows by (auto simp: to_row_def)
  moreover have "?rows \<noteq> []" using len by auto
  ultimately show "storeMap ?rows = [(''M'', ?rows)]" by (rule storeMap_single_store)
qed

text \<open>
  Claim C3, as stated: for every group the commission is the floor of the exact product
  of the total with \<open>0.2\<close>. The code multiplies doubles. The store \<open>M\<close> of \<open>big_db\<close> has
  the total 7000000000000004, still an exact double; the exact product is
  1400000000000000.8, the double product (with the double nearest to \<open>0.2\<close>, rounded to 53
  bits) is 1400000000000001, so the run reports the commission 1400000000000001 and the
  payout 5600000000000003, one off the exact 1400000000000000 and 5600000000000004.
\<close>

theorem double_product_is_one_off:
  "fst (runSettlementPeriod quiet_env (Some 0) (Some 100) True big_db) =
     Inr (ReportDryRun 1750001 1
        [\<lparr>storeId = ''M'', statementId = None, totalSales = 7000000000000004,
          commissionAmount = 1400000000000001, payoutAmount = 5600000000000003,
          paymentsCount = 1750001\<rparr>]) \<and>
   \<lfloor>real_of_int 7000000000000004 * 0.2\<rfloor> = (1400000000000000::int)"
proof -
  have pre: "(0::int) < 100" "query_error quiet_env LogInsert = None"
    "query_error quiet_env SelectPayments = None"
    by (simp_all add: quiet_env_def)
  have ne: "select_payments 0 100 big_db \<noteq> []" using big_db_total(2) by auto
  have comm: "floor_times_rate 7000000000000004 = 1400000000000001"
    by (simp add: floor_times_rate_def PLATFORM_COMMISSION_RATE_significand_def round53_def
        Let_def)
  have pay: "js_sub 7000000000000004 1400000000000001 = 5600000000000003"
    by (simp add: js_sub_exact)
  have sim: "simulateSettlement (select_payments 0 100 big_db) =
     (1, [\<lparr>storeId = ''M'', statementId = None, totalSales = 7000000000000004,
          commissionAmount = 1400000000000001, payoutAmount = 5600000000000003,
          paymentsCount = 1750001\<rparr>])"
    unfolding simulateSettlement_def big_db_total(3)
    by (simp add: big_db_total(1,2) comm pay Let_def)
  have "fst (runSettlementPeriod quiet_env (Some 0) (Some 100) True big_db) =
     Inr (ReportDryRun 1750001 1
        [\<lparr>storeId = ''M'', statementId = None, totalSales = 7000000000000004,
          commissionAmount = 1400000000000001, payoutAmount = 5600000000000003,
          paymentsCount = 1750001\<rparr>])"
    unfolding runSettlementPeriod_dry_unfold[OF pre ne] sim big_db_total(2)
    by (simp add: quiet_env_def)
  moreover have "\<lfloor>real_of_int 7000000000000004 * 0.2\<rfloor> = (1400000000000000::int)"
    unfolding floor_fifth by simp
  ultimately show ?thesis by simp
qed

section \<open>Facts about the webhook service\<close>

lemma saveWebhookHistory_Inr:
  assumes "saveWebhookHistory env i oid et w d = Inr d1"
  shows "d1 = d\<lparr>payment_webhooks := payment_webhooks d @ [history_row env i oid et w]\<rparr>"
    and "statement_error env HistoryInsert = None"
    and "history_columns_accept oid et w"
  using assms
  by (auto simp: saveWebhookHistory_def split: option.splits if_splits)

lemma saveWebhookHistory_accepted:
  assumes "statement_error env HistoryInsert = None" "history_columns_accept oid et w"
  shows "saveWebhookHistory env i oid et w d =
         Inr (d\<lparr>payment_webhooks := payment_webhooks d @ [history_row env i oid et w]\<rparr>)"
  using assms by (simp add: saveWebhookHistory_def)

lemma update_payment_tables [simp]:
  "payment_webhooks (update_payment i f d) = payment_webhooks d"
  "reservations (update_payment i f d) = reservations d"
  by (simp_all add: update_payment_def)

lemma update_reservation_Inr:
  assumes "update_reservation env rid a b d = Inr d'"
  shows "payment_webhooks d' = payment_webhooks d" and "payments d' = payments d"
  using assms
  by (auto simp: update_reservation_def split: option.splits if_splits)

text \<open>No update of the service changes the order identifier of a payment.\<close>

lemma update_payment_order_ids:
  assumes "\<And>q. pg_order_id (f q) = pg_order_id q"
  shows "map pg_order_id (payments (update_payment i f d)) = map pg_order_id (payments d)"
  using assms by (simp add: update_payment_def)

lemma handlePaymentStatusChanged_Inr:
  assumes "handlePaymentStatusChanged env p w d = Inr d'"
  shows "payment_webhooks d' = payment_webhooks d"
    and "map pg_order_id (payments d') = map pg_order_id (payments d)"
proof -
  let ?s = "mapTossStatusToOurStatus (property_key (data_status w))"
  consider (succ) "?s = JString ''SUCCESS''"
    | (fail) "?s \<noteq> JString ''SUCCESS''" "?s = JString ''FAILED''"
    | (other) "?s \<noteq> JString ''SUCCESS''" "?s \<noteq> JString ''FAILED''"
    by blast
  then have "payment_webhooks d' = payment_webhooks d \<and>
             map pg_order_id (payments d') = map pg_order_id (payments d)"
  proof cases
    case succ
    let ?d1 = "update_payment (pay_id p)
                 (\<lambda>q. q\<lparr>status := SUCCESS, pg_payment_key := data_paymentKey w,
                         pg_method := or_string (data_method w) (pg_method p),
                         amount_total := or_number (data_totalAmount w) (amount_total p),
                         paid_at := approved_time env (data_approvedAt w)\<rparr>) d"
    have "update_reservation env (reservation_id p) (Some ''confirmed'') ''paid'' ?d1 = Inr d'"
      using assms succ
      by (simp add: handlePaymentStatusChanged_def Let_def split: option.splits if_splits)
    from update_reservation_Inr[OF this] show ?thesis
      by (simp add: update_payment_order_ids)
  next
    case fail
    let ?d1 = "update_payment (pay_id p) (\<lambda>q. q\<lparr>status := FAILED\<rparr>) d"
    have "update_reservation env (reservation_id p) None ''failed'' ?d1 = Inr d'"
      using assms fail
      by (simp add: handlePaymentStatusChanged_def Let_def split: option.splits)
    from update_reservation_Inr[OF this] show ?thesis
      by (simp add: update_payment_order_ids)
  next
    case other
    then have "d' = d"
      using assms by (simp add: handlePaymentStatusChanged_def Let_def)
    then show ?thesis by simp
  qed
  then show "payment_webhooks d' = payment_webhooks d"
    and "map pg_order_id (payments d') = map pg_order_id (payments d)"
    by simp_all
qed

lemma handlePaymentCanceled_Inr:
  assumes "handlePaymentCanceled env p d = Inr d'"
  shows "payment_webhooks d' = payment_webhooks d"
    and "map pg_order_id (payments d') = map pg_order_id (payments d)"
proof -
  let ?d1 = "update_payment (pay_id p)
               (\<lambda>q. q\<lparr>status := CANCELED,
                       canceled_at := Some (server_time env PaymentWrite)\<rparr>) d"
  have "update_reservation env (reservation_id p) (Some ''canceled'') ''refunded'' ?d1 = Inr d'"
    using assms by (simp add: handlePaymentCanceled_def split: option.splits)
  from update_reservation_Inr[OF this]
  show "payment_webhooks d' = payment_webhooks d"
    and "map pg_order_id (payments d') = map pg_order_id (payments d)"
    by (simp_all add: update_payment_order_ids)
qed

lemma dispatch_event_Inr:
  assumes "dispatch_event env et p w d = Inr d'"
  shows "payment_webhooks d' = payment_webhooks d"
    and "map pg_order_id (payments d') = map pg_order_id (payments d)"
  using assms handlePaymentStatusChanged_Inr[of env p w d d']
    handlePaymentCanceled_Inr[of env p d d']
  by (auto simp: dispatch_event_def split: if_splits)

text \<open>The payments that the lookup finds depend on the order identifiers only.\<close>

lemma lookup_nonempty:
  "filter (\<lambda>p. sql_equal env (pg_order_id p) oid) ps \<noteq> [] \<longleftrightarrow>
   (\<exists>x \<in> set (map pg_order_id ps). sql_equal env x oid)"
  by (auto simp: filter_empty_conv)

text \<open>\<open>processWebhook\<close> once the two fields are there and the payment is found.\<close>

lemma processWebhook_found:
  assumes "eventType webhook = Some et" "et \<noteq> []"
    and "data_orderId webhook = Some oid" "oid \<noteq> []"
    and "statement_error env PaymentLookup = None"
    and "filter (\<lambda>p. sql_equal env (pg_order_id p) oid) (payments d) = payment # others"
    and "statement_error env ReplayLookup = None"
  shows "processWebhook env webhook d =
     (if checkWebhookIdempotency env d oid et (data_status webhook)
      then (Inr already_processed, d)
      else
        (case saveWebhookHistory env (pay_id payment) oid et webhook d of
           Inl e \<Rightarrow> (Inl e, d)
         | Inr d1 \<Rightarrow>
             if \<not> isValidStatusTransition (status payment)
                  (mapTossStatusToOurStatus (property_key (data_status webhook)))
             then (Inr invalid_transition, d1)
             else
               (case dispatch_event env et payment webhook d1 of
                  Inl e \<Rightarrow> (Inl e, d)
                | Inr d2 \<Rightarrow> (Inr processed, d2))))"
  using assms
  by (simp add: processWebhook_def rollback_def already_processed_def
      invalid_transition_def processed_def split: sum.splits)

text \<open>A call that throws has changed nothing.\<close>

lemma processWebhook_thrown:
  assumes "processWebhook env webhook d = (Inl e, d')"
  shows "d' = d"
  using assms
  by (auto simp: processWebhook_def rollback_def
      split: option.splits if_splits list.splits sum.splits)

text \<open>
  A delivery that returns without being a replay has found the payment and appended the
  row of the event; the payment of the order is still there afterwards.
\<close>

lemma first_delivery_recorded:
  assumes run: "processWebhook env webhook d = (Inr out, d')"
    and fresh: "out \<noteq> already_processed"
  shows "\<exists>et oid payment.
           eventType webhook = Some et \<and> et \<noteq> [] \<and>
           data_orderId webhook = Some oid \<and> oid \<noteq> [] \<and>
           payment \<in> set (payments d) \<and> sql_equal env (pg_order_id payment) oid \<and>
           payment_webhooks d' = payment_webhooks d @
             [history_row env (pay_id payment) oid et webhook] \<and>
           map pg_order_id (payments d') = map pg_order_id (payments d)"
proof -
  obtain et where et: "eventType webhook = Some et"
    using run by (cases "eventType webhook") (simp_all add: processWebhook_def)
  obtain oid where oid: "data_orderId webhook = Some oid"
    using run et by (cases "data_orderId webhook") (simp_all add: processWebhook_def)
  have ne: "et \<noteq> []" "oid \<noteq> []"
    using run et oid by (auto simp: processWebhook_def split: if_splits)
  have look: "statement_error env PaymentLookup = None"
    using run et oid ne
    by (cases "statement_error env PaymentLookup") (simp_all add: processWebhook_def)
  obtain payment others where found:
    "filter (\<lambda>p. sql_equal env (pg_order_id p) oid) (payments d) = payment # others"
    using run et oid ne look
    by (cases "filter (\<lambda>p. sql_equal env (pg_order_id p) oid) (payments d)")
       (simp_all add: processWebhook_def)
  have "payment \<in> set (filter (\<lambda>p. sql_equal env (pg_order_id p) oid) (payments d))"
    unfolding found by simp
  then have pay: "payment \<in> set (payments d)" "sql_equal env (pg_order_id payment) oid"
    by simp_all
  have replay: "statement_error env ReplayLookup = None"
    using run et oid ne look found
    by (cases "statement_error env ReplayLookup") (simp_all add: processWebhook_def)
  note unfolded = processWebhook_found[OF et ne(1) oid ne(2) look found replay]
  have notseen: "\<not> checkWebhookIdempotency env d oid et (data_status webhook)"
    using run fresh unfolding unfolded by (auto split: if_splits)
  obtain d1 where saved: "saveWebhookHistory env (pay_id payment) oid et webhook d = Inr d1"
    using run notseen unfolding unfolded
    by (cases "saveWebhookHistory env (pay_id payment) oid et webhook d") simp_all
  have d1: "payment_webhooks d1 = payment_webhooks d @
              [history_row env (pay_id payment) oid et webhook]"
    "payments d1 = payments d"
    using saveWebhookHistory_Inr(1)[OF saved] by simp_all
  have "payment_webhooks d' = payment_webhooks d1 \<and>
        map pg_order_id (payments d') = map pg_order_id (payments d1)"
  proof (cases "isValidStatusTransition (status payment)
                  (mapTossStatusToOurStatus (property_key (data_status webhook)))")
    case False
    then have "d' = d1" using run notseen saved unfolding unfolded by simp
    then show ?thesis by simp
  next
    case True
    then obtain d2 where disp: "dispatch_event env et payment webhook d1 = Inr d2"
      and "d' = d2"
      using run notseen saved unfolding unfolded
      by (cases "dispatch_event env et payment webhook d1") simp_all
    then show ?thesis using dispatch_event_Inr[OF disp] by simp
  qed
  then show ?thesis using et oid ne pay d1 by auto
qed

text \<open>
  Claim C5, as stated: a webhook delivered twice within the hour changes the payment
  exactly once, the second delivery being recognised as a replay. Two deliveries of the
  \<open>DONE\<close> event for a \<open>FAILED\<close> payment, a minute apart: the first is rejected as an
  invalid transition, the second is recognised as a replay, and the payment is never
  changed. Two deliveries of the same event without a status: the recorded status is
  \<open>NULL\<close>, the lookup \<open>status = NULL\<close> finds no row, so the second delivery is not
  recognised; it is recorded a second time and answered like the first.
\<close>

theorem replay_without_change_and_unrecognised_replay:
  "fst (processWebhook (calm_store 1000) done_webhook failed_payment_db) =
     Inr invalid_transition \<and>
   payments (snd (processWebhook (calm_store 1000) done_webhook failed_payment_db)) =
     payments failed_payment_db \<and>
   processWebhook (calm_store 1060) done_webhook
       (snd (processWebhook (calm_store 1000) done_webhook failed_payment_db)) =
     (Inr already_processed,
      snd (processWebhook (calm_store 1000) done_webhook failed_payment_db)) \<and>
   fst (processWebhook (calm_store 1000) statusless_webhook pending_payment_db) =
     Inr invalid_transition \<and>
   fst (processWebhook (calm_store 1060) statusless_webhook
          (snd (processWebhook (calm_store 1000) statusless_webhook pending_payment_db))) =
     Inr invalid_transition \<and>
   length (payment_webhooks (snd (processWebhook (calm_store 1060) statusless_webhook
          (snd (processWebhook (calm_store 1000) statusless_webhook pending_payment_db))))) = 2"
  by (simp add: processWebhook_def checkWebhookIdempotency_def saveWebhookHistory_def
      history_columns_accept_def stored_payment_key_def varchar_accepts_def history_row_def
      sql_equal_def calm_store_def ascii_ci_key_def ascii_capital_def rollback_def
      mapTossStatusToOurStatus_def statusMap_def objectPrototypeKeys_def
      done_webhook_def statusless_webhook_def failed_payment_db_def pending_payment_db_def
      example_ledger_def example_payment_def already_processed_def invalid_transition_def
      Let_def)

text \<open>
  Claim C5, amended. Let a webhook carry a status and let its delivery return without
  being answered as a replay (so the payment exists and the event has been recorded).
  Let a second webhook with the same order identifier, event type and status, whatever
  its other fields, be delivered to the same store at most one hour after the row of the
  first was written, and let its two reads not be rejected. Then the second delivery is
  recognised by the idempotency check: it returns the already-processed outcome and
  leaves every table, \<open>payments\<close> included, as the first delivery left it. Hence the
  payment is changed at most once by the two deliveries, by the first one if at all.
\<close>

theorem second_delivery_is_replay:
  assumes first: "processWebhook env1 webhook1 d = (Inr out1, d1)"
    and fresh: "out1 \<noteq> already_processed"
    and status: "data_status webhook1 = Some st"
    and same: "data_orderId webhook2 = data_orderId webhook1"
      "eventType webhook2 = eventType webhook1"
      "data_status webhook2 = data_status webhook1"
    and store: "collation_key env2 = collation_key env1"
    and window: "server_time env2 ReplayLookup \<le> server_time env1 HistoryInsert + 3600"
    and reads: "statement_error env2 PaymentLookup = None"
      "statement_error env2 ReplayLookup = None"
  shows "processWebhook env2 webhook2 d1 = (Inr already_processed, d1)"
proof -
  from first_delivery_recorded[OF first fresh] obtain et oid payment where
    et: "eventType webhook1 = Some et" "et \<noteq> []"
    and oid: "data_orderId webhook1 = Some oid" "oid \<noteq> []"
    and pay: "payment \<in> set (payments d)" "sql_equal env1 (pg_order_id payment) oid"
    and wh: "payment_webhooks d1 = payment_webhooks d @
               [history_row env1 (pay_id payment) oid et webhook1]"
    and ids: "map pg_order_id (payments d1) = map pg_order_id (payments d)"
    by blast
  have eq: "sql_equal env2 a b = sql_equal env1 a b" for a b
    by (simp add: sql_equal_def store)
  have "\<exists>x \<in> set (map pg_order_id (payments d1)). sql_equal env2 x oid"
    unfolding ids eq using pay by force
  then have "filter (\<lambda>p. sql_equal env2 (pg_order_id p) oid) (payments d1) \<noteq> []"
    by (simp only: lookup_nonempty)
  then obtain payment' others where found:
    "filter (\<lambda>p. sql_equal env2 (pg_order_id p) oid) (payments d1) = payment' # others"
    by (cases "filter (\<lambda>p. sql_equal env2 (pg_order_id p) oid) (payments d1)") simp_all
  have seen: "checkWebhookIdempotency env2 d1 oid et (data_status webhook2)"
    unfolding checkWebhookIdempotency_def wh same(3) status
    using status window by (simp add: history_row_def sql_equal_def)
  have et2: "eventType webhook2 = Some et" and oid2: "data_orderId webhook2 = Some oid"
    using same et oid by simp_all
  show ?thesis
    unfolding processWebhook_found[OF et2 et(2) oid2 oid(2) reads(1) found reads(2)]
    using seen by simp
qed

theorem second_delivery_is_replay_witness:
  "fst (processWebhook (calm_store 1000) done_webhook pending_payment_db) = Inr processed \<and>
   processed \<noteq> already_processed \<and>
   map status (payments (snd (processWebhook (calm_store 1000) done_webhook pending_payment_db))) =
     [SUCCESS] \<and>
   done_webhook_again \<noteq> done_webhook \<and>
   processWebhook (calm_store 4600) done_webhook_again
       (snd (processWebhook (calm_store 1000) done_webhook pending_payment_db)) =
     (Inr already_processed,
      snd (processWebhook (calm_store 1000) done_webhook pending_payment_db))"
proof -
  let ?first = "processWebhook (calm_store 1000) done_webhook pending_payment_db"
  have out: "fst ?first = Inr processed"
    and st: "map status (payments (snd ?first)) = [SUCCESS]"
    by (simp_all add: processWebhook_def checkWebhookIdempotency_def saveWebhookHistory_def
      history_columns_accept_def stored_payment_key_def varchar_accepts_def history_row_def
      sql_equal_def calm_store_def ascii_ci_key_def ascii_capital_def rollback_def
      mapTossStatusToOurStatus_def statusMap_def dispatch_event_def
      handlePaymentStatusChanged_def payment_key_taken_def int_unsigned_accepts_def
      approved_time_def update_payment_def update_reservation_def
      done_webhook_def pending_payment_db_def
      example_ledger_def example_payment_def processed_def Let_def)
  have first: "?first = (Inr processed, snd ?first)" using out by (metis prod.collapse)
  have fresh: "processed \<noteq> already_processed"
    by (simp add: processed_def already_processed_def)
  have status: "data_status done_webhook = Some ''DONE''" by (simp add: done_webhook_def)
  have same: "data_orderId done_webhook_again = data_orderId done_webhook"
    "eventType done_webhook_again = eventType done_webhook"
    "data_status done_webhook_again = data_status done_webhook"
    by (simp_all add: done_webhook_again_def)
  have other: "done_webhook_again \<noteq> done_webhook"
    by (simp add: done_webhook_again_def done_webhook_def)
  have store: "collation_key (calm_store 4600) = collation_key (calm_store 1000)"
    by (simp add: calm_store_def)
  have window: "server_time (calm_store 4600) ReplayLookup \<le>
      server_time (calm_store 1000) HistoryInsert + 3600"
    by (simp add: calm_store_def)
  have reads: "statement_error (calm_store 4600) PaymentLookup = None"
    "statement_error (calm_store 4600) ReplayLookup = None"
    by (simp_all add: calm_store_def)
  from second_delivery_is_replay[OF first fresh status same store window reads] out fresh st other
  show ?thesis by simp
qed

text \<open>
  Claim C6, as stated: every webhook whose mapped status is not a legal transition is
  recorded, not applied, and committed. The \<open>DONE\<close> event for a \<open>FAILED\<close> payment, when
  the same event is on record since a minute: the idempotency check comes first, the
  call is answered as a replay and no row is written. The event for the same payment
  with a status of 40 characters (it maps to \<open>PENDING\<close>, not a legal transition either):
  the column \<open>status VARCHAR(30)\<close> rejects the row, and the call throws instead of
  committing.
\<close>

theorem replayed_or_rejected_event_is_not_recorded:
  "\<not> isValidStatusTransition FAILED
       (mapTossStatusToOurStatus (property_key (data_status done_webhook))) \<and>
   map status (payments failed_payment_seen_db) = [FAILED] \<and>
   processWebhook (calm_store 1060) done_webhook failed_payment_seen_db =
     (Inr already_processed, failed_payment_seen_db) \<and>
   length (payment_webhooks failed_payment_seen_db) = 1 \<and>
   \<not> isValidStatusTransition FAILED
       (mapTossStatusToOurStatus (property_key (data_status long_status_webhook))) \<and>
   map status (payments failed_payment_db) = [FAILED] \<and>
   processWebhook (calm_store 1000) long_status_webhook failed_payment_db =
     (Inl (DbError ''Data too long for column''), failed_payment_db)"
  by (simp add: processWebhook_def checkWebhookIdempotency_def saveWebhookHistory_def
      history_columns_accept_def stored_payment_key_def varchar_accepts_def history_row_def
      sql_equal_def calm_store_def ascii_ci_key_def ascii_capital_def rollback_def
      mapTossStatusToOurStatus_def statusMap_def objectPrototypeKeys_def
      done_webhook_def long_status_webhook_def failed_payment_db_def
      failed_payment_seen_db_def
      example_ledger_def example_payment_def already_processed_def invalid_transition_def
      Let_def)

text \<open>
  Claim C6, amended. Let the webhook name an existing payment and let its mapped status
  not be a legal transition from the status of that payment. Then \<open>processWebhook\<close> never
  changes the payments or the reservations. If its statements are not rejected (the two
  reads and the insert succeed, and order identifier, payment key, event type and status
  fit their columns) and the idempotency check finds no equal event of the last hour,
  it appends the row of the event to \<open>payment_webhooks\<close>, changes nothing else, commits
  and answers \<open>Invalid status transition\<close>. Otherwise it writes nothing at all: it answers
  a replay as already processed, or it throws after the rollback.
\<close>

theorem invalid_transition_is_recorded_not_applied:
  assumes fields: "eventType webhook = Some et" "et \<noteq> []"
      "data_orderId webhook = Some oid" "oid \<noteq> []"
    and found: "filter (\<lambda>p. sql_equal env (pg_order_id p) oid) (payments d) = payment # others"
    and invalid: "\<not> isValidStatusTransition (status payment)
        (mapTossStatusToOurStatus (property_key (data_status webhook)))"
  shows "payments (snd (processWebhook env webhook d)) = payments d \<and>
     reservations (snd (processWebhook env webhook d)) = reservations d \<and>
     (if statement_error env PaymentLookup = None \<and> statement_error env ReplayLookup = None \<and>
         statement_error env HistoryInsert = None \<and>
         history_columns_accept oid et webhook \<and>
         \<not> checkWebhookIdempotency env d oid et (data_status webhook)
      then processWebhook env webhook d =
             (Inr invalid_transition,
              d\<lparr>payment_webhooks := payment_webhooks d @
                   [history_row env (pay_id payment) oid et webhook]\<rparr>)
      else snd (processWebhook env webhook d) = d \<and>
           (fst (processWebhook env webhook d) = Inr already_processed \<or>
            (\<exists>m. fst (processWebhook env webhook d) = Inl (DbError m))))"
proof -
  let ?run = "processWebhook env webhook d"
  let ?seen = "checkWebhookIdempotency env d oid et (data_status webhook)"
  let ?row = "history_row env (pay_id payment) oid et webhook"
  let ?d1 = "d\<lparr>payment_webhooks := payment_webhooks d @ [?row]\<rparr>"
  consider (look) m where "statement_error env PaymentLookup = Some m"
    | (replay) m where "statement_error env PaymentLookup = None"
        "statement_error env ReplayLookup = Some m"
    | (seen) "statement_error env PaymentLookup = None"
        "statement_error env ReplayLookup = None" "?seen"
    | (rejected) "statement_error env PaymentLookup = None"
        "statement_error env ReplayLookup = None" "\<not> ?seen"
        "statement_error env HistoryInsert \<noteq> None \<or> \<not> history_columns_accept oid et webhook"
    | (recorded) "statement_error env PaymentLookup = None"
        "statement_error env ReplayLookup = None" "\<not> ?seen"
        "statement_error env HistoryInsert = None" "history_columns_accept oid et webhook"
    by (cases "statement_error env PaymentLookup"; cases "statement_error env ReplayLookup")
       auto
  then show ?thesis
  proof cases
    case look
    have "?run = (Inl (DbError m), d)"
      using fields look by (simp add: processWebhook_def rollback_def)
    then show ?thesis using look by simp
  next
    case replay
    have "?run = (Inl (DbError m), d)"
      using fields found replay by (simp add: processWebhook_def rollback_def)
    then show ?thesis using replay by simp
  next
    case seen
    have "?run = (Inr already_processed, d)"
      unfolding processWebhook_found[OF fields seen(1) found seen(2)] using seen(3) by simp
    then show ?thesis using seen by simp
  next
    case rejected
    have "\<exists>m. saveWebhookHistory env (pay_id payment) oid et webhook d = Inl (DbError m)"
      using rejected(4) by (auto simp: saveWebhookHistory_def split: option.splits)
    then obtain m where "saveWebhookHistory env (pay_id payment) oid et webhook d =
        Inl (DbError m)" ..
    then have "?run = (Inl (DbError m), d)"
      unfolding processWebhook_found[OF fields rejected(1) found rejected(2)]
      using rejected(3) by simp
    then show ?thesis using rejected by auto
  next
    case recorded
    have "?run = (Inr invalid_transition, ?d1)"
      unfolding processWebhook_found[OF fields recorded(1) found recorded(2)]
      using recorded(3) invalid saveWebhookHistory_accepted[OF recorded(4,5)] by simp
    then show ?thesis using recorded by simp
  qed
qed

theorem invalid_transition_is_recorded_not_applied_witness:
  "filter (\<lambda>p. sql_equal (calm_store 1000) (pg_order_id p) ''order-M'')
     (payments failed_payment_db) = [example_payment 3 ''M'' 15000 10 FAILED] \<and>
   mapTossStatusToOurStatus (property_key (data_status done_webhook)) = JString ''SUCCESS'' \<and>
   \<not> isValidStatusTransition FAILED (JString ''SUCCESS'') \<and>
   history_columns_accept ''order-M'' ''PAYMENT_STATUS_CHANGED'' done_webhook \<and>
   \<not> checkWebhookIdempotency (calm_store 1000) failed_payment_db ''order-M''
       ''PAYMENT_STATUS_CHANGED'' (data_status done_webhook) \<and>
   fst (processWebhook (calm_store 1000) done_webhook failed_payment_db) =
     Inr invalid_transition \<and>
   map status (payments (snd (processWebhook (calm_store 1000) done_webhook failed_payment_db))) =
     [FAILED] \<and>
   length (payment_webhooks
     (snd (processWebhook (calm_store 1000) done_webhook failed_payment_db))) = 1"
proof -
  let ?p = "example_payment 3 ''M'' 15000 10 FAILED"
  let ?env = "calm_store 1000"
  have fields: "eventType done_webhook = Some ''PAYMENT_STATUS_CHANGED''"
    "''PAYMENT_STATUS_CHANGED'' \<noteq> []"
    "data_orderId done_webhook = Some ''order-M''" "''order-M'' \<noteq> []"
    by (simp_all add: done_webhook_def)
  have found: "filter (\<lambda>p. sql_equal ?env (pg_order_id p) ''order-M'')
      (payments failed_payment_db) = ?p # []"
    by (simp add: failed_payment_db_def example_ledger_def example_payment_def
        sql_equal_def calm_store_def)
  have mapped: "mapTossStatusToOurStatus (property_key (data_status done_webhook)) =
      JString ''SUCCESS''"
    by (simp add: done_webhook_def mapTossStatusToOurStatus_def statusMap_def)
  have st: "status ?p = FAILED" by (simp add: example_payment_def)
  have invalid: "\<not> isValidStatusTransition (status ?p)
        (mapTossStatusToOurStatus (property_key (data_status done_webhook)))"
    unfolding mapped st by simp
  have quiet: "statement_error ?env PaymentLookup = None"
    "statement_error ?env ReplayLookup = None" "statement_error ?env HistoryInsert = None"
    by (simp_all add: calm_store_def)
  have fits: "history_columns_accept ''order-M'' ''PAYMENT_STATUS_CHANGED'' done_webhook"
    by (simp add: history_columns_accept_def stored_payment_key_def varchar_accepts_def
        done_webhook_def)
  have fresh: "\<not> checkWebhookIdempotency ?env failed_payment_db ''order-M''
      ''PAYMENT_STATUS_CHANGED'' (data_status done_webhook)"
    by (simp add: checkWebhookIdempotency_def failed_payment_db_def example_ledger_def)
  have run: "processWebhook ?env done_webhook failed_payment_db =
      (Inr invalid_transition,
       failed_payment_db\<lparr>payment_webhooks := payment_webhooks failed_payment_db @
          [history_row ?env (pay_id ?p) ''order-M'' ''PAYMENT_STATUS_CHANGED'' done_webhook]\<rparr>)"
    using invalid_transition_is_recorded_not_applied[OF fields found invalid]
      quiet fits fresh by simp
  have "map status (payments failed_payment_db) = [FAILED]"
    by (simp add: failed_payment_db_def example_ledger_def example_payment_def)
  moreover have "length (payment_webhooks failed_payment_db) = 0"
    by (simp add: failed_payment_db_def example_ledger_def)
  ultimately show ?thesis
    using run found mapped fits fresh by simp
qed

end
